theory Spec2Isabelle
  imports Main
begin

section \<open>JavaScript values\<close>

text \<open>
  The service works on plain JavaScript values: the notes it reads are whatever
  \<^verbatim>\<open>JSON.parse\<close> returns, the records it builds are object literals with spread
  properties. An object is the list of its own enumerable properties in the order
  JavaScript keeps them; numbers are the integers (the code never computes with a number); a string is
  the list of its characters; a \<^verbatim>\<open>Date\<close> is its time value in milliseconds since
  the epoch.
\<close>

datatype jsval =
    JUndefined
  | JNull
  | JBool bool
  | JNum int
  | JStr string
  | JDate int
  | JArr "jsval list"
  | JObj "(string \<times> jsval) list"

text \<open>
  What an operation can end with in place of a result: the service's own
  \<^verbatim>\<open>NotFoundException\<close> with its message, the rejection of \<^verbatim>\<open>readFile\<close> or
  \<^verbatim>\<open>writeFile\<close> with the platform's error code, the SyntaxError of \<^verbatim>\<open>JSON.parse\<close>,
  and the TypeError of the language.
\<close>

datatype error =
    NotFoundException string
  | FsError string
  | SyntaxError
  | TypeError

text \<open>Truthiness, as used by \<^verbatim>\<open>!note\<close> and \<^verbatim>\<open>createNoteDto.tags || []\<close>.\<close>

fun truthy :: "jsval \<Rightarrow> bool" where
  "truthy JUndefined = False"
| "truthy JNull = False"
| "truthy (JBool b) = b"
| "truthy (JNum n) = (n \<noteq> 0)"
| "truthy (JStr s) = (s \<noteq> [])"
| "truthy (JDate t) = True"
| "truthy (JArr xs) = True"
| "truthy (JObj ps) = True"

subsection \<open>Dates as ISO 8601 text\<close>

definition digit :: "nat \<Rightarrow> char" where
  "digit n = ''0123456789'' ! (n mod 10)"

definition pad2 :: "nat \<Rightarrow> string" where
  "pad2 n = [digit (n div 10), digit n]"

definition pad3 :: "nat \<Rightarrow> string" where
  "pad3 n = [digit (n div 100), digit (n div 10), digit n]"

definition pad4 :: "nat \<Rightarrow> string" where
  "pad4 n = [digit (n div 1000), digit (n div 100), digit (n div 10), digit n]"

definition pad6 :: "nat \<Rightarrow> string" where
  "pad6 n = [digit (n div 100000), digit (n div 10000), digit (n div 1000),
             digit (n div 100), digit (n div 10), digit n]"

text \<open>
  \<^verbatim>\<open>Date.prototype.toISOString\<close>: the proleptic Gregorian date and the UTC time of
  day of a time value, as \<^verbatim>\<open>YYYY-MM-DDTHH:mm:ss.sssZ\<close>; a year outside 0..9999 is
  written with a sign and six digits. The date comes from the day number by eras of
  400 years (146097 days) that start on 1 March: \<open>doe\<close> is the day of the era,
  \<open>yoe\<close> the year of the era, \<open>doy\<close> the day of that year.
\<close>

definition year_of_era :: "int \<Rightarrow> int" where
  "year_of_era doe = (doe - doe div 1460 + doe div 36524 - doe div 146096) div 365"

definition day_of_year :: "int \<Rightarrow> int \<Rightarrow> int" where
  "day_of_year doe yoe = doe - (365 * yoe + yoe div 4 - yoe div 100)"

definition month_of :: "int \<Rightarrow> int" where
  "month_of mp = (if mp < 10 then mp + 3 else mp - 9)"

definition civil_month :: "int \<Rightarrow> int" where
  "civil_month doy = month_of ((5 * doy + 2) div 153)"

definition civil_day :: "int \<Rightarrow> int" where
  "civil_day doy = doy - (153 * ((5 * doy + 2) div 153) + 2) div 5 + 1"

definition civil_year :: "int \<Rightarrow> int \<Rightarrow> int \<Rightarrow> int" where
  "civil_year era yoe m = yoe + era * 400 + (if m \<le> 2 then 1 else 0)"

definition year_text :: "int \<Rightarrow> string" where
  "year_text y =
     (if 0 \<le> y \<and> y \<le> 9999 then pad4 (nat y)
      else (if y < 0 then CHR ''-'' else CHR ''+'') # pad6 (nat \<bar>y\<bar>))"

definition date_text :: "int \<Rightarrow> int \<Rightarrow> int \<Rightarrow> string" where
  "date_text era yoe doy =
     year_text (civil_year era yoe (civil_month doy)) @ ''-''
     @ pad2 (nat (civil_month doy)) @ ''-'' @ pad2 (nat (civil_day doy))"

definition time_text :: "nat \<Rightarrow> string" where
  "time_text ms =
     pad2 (ms div 3600000) @ '':'' @ pad2 (ms div 60000 mod 60) @ '':''
     @ pad2 (ms div 1000 mod 60) @ ''.'' @ pad3 (ms mod 1000)"

definition era_text :: "int \<Rightarrow> int \<Rightarrow> string" where
  "era_text era doe = date_text era (year_of_era doe) (day_of_year doe (year_of_era doe))"

definition toISOString :: "int \<Rightarrow> string" where
  "toISOString t =
     era_text ((t div 86400000 + 719468) div 146097) ((t div 86400000 + 719468) mod 146097)
     @ ''T'' @ time_text (nat (t mod 86400000)) @ ''Z''"

subsection \<open>Objects\<close>

text \<open>
  Reading a property: \<^verbatim>\<open>n.id\<close>, \<^verbatim>\<open>createNoteDto.tags\<close>. On \<^verbatim>\<open>null\<close> and
  \<^verbatim>\<open>undefined\<close> it throws a TypeError; an object gives its own property or
  \<^verbatim>\<open>undefined\<close>; any other value gives \<^verbatim>\<open>undefined\<close> for the names the service
  reads (\<^verbatim>\<open>id\<close>, \<^verbatim>\<open>tags\<close>), which no prototype defines.
\<close>

definition lookup :: "(string \<times> jsval) list \<Rightarrow> string \<Rightarrow> jsval" where
  "lookup ps k = (case map_of ps k of None \<Rightarrow> JUndefined | Some v \<Rightarrow> v)"

fun get_prop :: "jsval \<Rightarrow> string \<Rightarrow> error + jsval" where
  "get_prop JUndefined k = Inl TypeError"
| "get_prop JNull k = Inl TypeError"
| "get_prop (JObj ps) k = Inr (lookup ps k)"
| "get_prop v k = Inr JUndefined"

text \<open>
  The own property names of an object are kept in this order: first the array
  indices (the decimal numerals of 0 to 4294967294, written without a leading
  zero) by ascending value, then every other name in the order of its definition.
\<close>

definition is_digit :: "char \<Rightarrow> bool" where
  "is_digit c = (c \<in> set ''0123456789'')"

definition digit_value :: "char \<Rightarrow> nat" where
  "digit_value c = length (takeWhile (\<lambda>x. x \<noteq> c) ''0123456789'')"

definition digits_value :: "string \<Rightarrow> nat" where
  "digits_value k = foldl (\<lambda>n c. 10 * n + digit_value c) 0 k"

definition array_index :: "string \<Rightarrow> nat option" where
  "array_index k =
     (if k \<noteq> [] \<and> list_all is_digit k \<and> (hd k \<noteq> CHR ''0'' \<or> k = ''0'')
         \<and> digits_value k \<le> 4294967294
      then Some (digits_value k) else None)"

definition comes_before :: "string \<Rightarrow> string \<Rightarrow> bool" where
  "comes_before k k' =
     (case array_index k of
        None \<Rightarrow> False
      | Some i \<Rightarrow> (case array_index k' of None \<Rightarrow> True | Some j \<Rightarrow> i < j))"

text \<open>
  Defining a property in an object literal: an existing property keeps its place and
  takes the new value; a new one goes to its place in the order above, which for a
  name that is not an array index is the end. (The test that the name is not
  further down only matters for a list that is not in that order.)
\<close>

fun set_prop :: "string \<Rightarrow> jsval \<Rightarrow> (string \<times> jsval) list \<Rightarrow> (string \<times> jsval) list" where
  "set_prop k v [] = [(k, v)]"
| "set_prop k v ((k', v') # ps) =
     (if k' = k then (k, v) # ps
      else if comes_before k k' \<and> k \<notin> fst ` set ps then (k, v) # (k', v') # ps
      else (k', v') # set_prop k v ps)"

text \<open>\<^verbatim>\<open>{...target, ...source}\<close>: the properties of the source, in order, defined over the target.\<close>

fun spread :: "(string \<times> jsval) list \<Rightarrow> (string \<times> jsval) list \<Rightarrow> (string \<times> jsval) list" where
  "spread [] target = target"
| "spread ((k, v) # src) target = spread src (set_prop k v target)"

function decimal :: "nat \<Rightarrow> string" where
  "decimal n = (if n < 10 then [digit n] else decimal (n div 10) @ [digit n])"
  by pat_completeness auto
termination
  by (relation "measure id") auto

fun indexed :: "nat \<Rightarrow> jsval list \<Rightarrow> (string \<times> jsval) list" where
  "indexed i [] = []"
| "indexed i (x # xs) = (decimal i, x) # indexed (Suc i) xs"

text \<open>
  The own enumerable properties a spread copies: those of an object; the elements of
  an array and the characters of a string under their indices; none of any other value.
\<close>

fun own_props :: "jsval \<Rightarrow> (string \<times> jsval) list" where
  "own_props (JObj ps) = ps"
| "own_props (JArr xs) = indexed 0 xs"
| "own_props (JStr s) = indexed 0 (map (\<lambda>c. JStr [c]) s)"
| "own_props v = []"

subsection \<open>Arrays\<close>

text \<open>
  \<^verbatim>\<open>notes.find\<close>, \<^verbatim>\<open>notes.findIndex\<close>, \<^verbatim>\<open>notes.push\<close> and \<^verbatim>\<open>notes.splice\<close> exist on
  arrays only: on any other value the call throws a TypeError.
\<close>

fun as_array :: "jsval \<Rightarrow> error + jsval list" where
  "as_array (JArr xs) = Inr xs"
| "as_array v = Inl TypeError"

text \<open>
  \<^verbatim>\<open>Array.prototype.find\<close> and \<^verbatim>\<open>findIndex\<close>: the first element the callback accepts
  (\<^verbatim>\<open>undefined\<close>, or \<^verbatim>\<open>-1\<close>, when there is none); a callback that throws ends the scan.
\<close>

fun find_js :: "(jsval \<Rightarrow> error + bool) \<Rightarrow> jsval list \<Rightarrow> error + jsval" where
  "find_js p [] = Inr JUndefined"
| "find_js p (n # ns) =
     (case p n of
        Inl e \<Rightarrow> Inl e
      | Inr b \<Rightarrow> if b then Inr n else find_js p ns)"

fun findIndex :: "(jsval \<Rightarrow> error + bool) \<Rightarrow> jsval list \<Rightarrow> error + int" where
  "findIndex p [] = Inr (- 1)"
| "findIndex p (n # ns) =
     (case p n of
        Inl e \<Rightarrow> Inl e
      | Inr b \<Rightarrow>
          if b then Inr 0
          else (case findIndex p ns of
                  Inl e \<Rightarrow> Inl e
                | Inr i \<Rightarrow> Inr (if i = - 1 then - 1 else i + 1)))"

text \<open>\<^verbatim>\<open>notes.splice(i, 1)\<close> for an index inside the array.\<close>

definition splice1 :: "nat \<Rightarrow> jsval list \<Rightarrow> jsval list" where
  "splice1 i ns = take i ns @ drop (Suc i) ns"

section \<open>JSON\<close>

text \<open>
  What \<^verbatim>\<open>JSON.parse(JSON.stringify(v))\<close> makes of a value: a \<^verbatim>\<open>Date\<close> becomes its
  ISO string, a property whose value is \<^verbatim>\<open>undefined\<close> is left out, an \<^verbatim>\<open>undefined\<close>
  array element becomes \<^verbatim>\<open>null\<close>.
\<close>

fun to_json :: "jsval \<Rightarrow> jsval"
  and to_json_elems :: "jsval list \<Rightarrow> jsval list"
  and to_json_props :: "(string \<times> jsval) list \<Rightarrow> (string \<times> jsval) list" where
  "to_json (JDate t) = JStr (toISOString t)"
| "to_json (JArr xs) = JArr (to_json_elems xs)"
| "to_json (JObj ps) = JObj (to_json_props ps)"
| "to_json JUndefined = JUndefined"
| "to_json JNull = JNull"
| "to_json (JBool b) = JBool b"
| "to_json (JNum n) = JNum n"
| "to_json (JStr s) = JStr s"
| "to_json_elems [] = []"
| "to_json_elems (x # xs) = (if x = JUndefined then JNull else to_json x) # to_json_elems xs"
| "to_json_props [] = []"
| "to_json_props ((k, v) # ps) =
     (if v = JUndefined then to_json_props ps else (k, to_json v) # to_json_props ps)"

text \<open>The values a JSON text can denote: no \<^verbatim>\<open>undefined\<close> and no \<^verbatim>\<open>Date\<close> inside.\<close>

fun is_json :: "jsval \<Rightarrow> bool"
  and is_json_elems :: "jsval list \<Rightarrow> bool"
  and is_json_props :: "(string \<times> jsval) list \<Rightarrow> bool" where
  "is_json JUndefined = False"
| "is_json (JDate t) = False"
| "is_json (JArr xs) = is_json_elems xs"
| "is_json (JObj ps) = is_json_props ps"
| "is_json JNull = True"
| "is_json (JBool b) = True"
| "is_json (JNum n) = True"
| "is_json (JStr s) = True"
| "is_json_elems [] = True"
| "is_json_elems (x # xs) = (is_json x \<and> is_json_elems xs)"
| "is_json_props [] = True"
| "is_json_props ((k, v) # ps) = (is_json v \<and> is_json_props ps)"

text \<open>
  The text of the data file is represented by what \<^verbatim>\<open>JSON.parse\<close> makes of it:
  \<open>Malformed\<close> is a text the parser rejects, \<open>Json v\<close> a text that denotes \<open>v\<close>.
\<close>

datatype file_text = Malformed | Json jsval

definition JSON_parse :: "file_text \<Rightarrow> error + jsval" where
  "JSON_parse t = (case t of Malformed \<Rightarrow> Inl SyntaxError | Json v \<Rightarrow> Inr v)"

text \<open>\<^verbatim>\<open>JSON.stringify\<close> returns \<^verbatim>\<open>undefined\<close> in place of a text for \<^verbatim>\<open>undefined\<close>.\<close>

definition JSON_stringify :: "jsval \<Rightarrow> file_text option" where
  "JSON_stringify v = (if v = JUndefined then None else Some (Json (to_json v)))"

section \<open>The data file\<close>

text \<open>
  The state of \<^verbatim>\<open>data/notes.json\<close>: its text (\<open>None\<close> when the file does not
  exist), the error code the platform answers a read or a write with when it refuses
  one (\<open>None\<close> when it does not), and the number of writes completed so far.
  A write is refused before the file is touched, or it replaces the whole text: a
  write that fails half way is not part of this model.
\<close>

record fs =
  data_file :: "file_text option"
  read_fault :: "string option"
  write_fault :: "string option"
  writes :: nat

definition readFile :: "fs \<Rightarrow> error + file_text" where
  "readFile s =
     (case read_fault s of
        Some c \<Rightarrow> Inl (FsError c)
      | None \<Rightarrow>
          (case data_file s of
             None \<Rightarrow> Inl (FsError ''ENOENT'')
           | Some t \<Rightarrow> Inr t))"

text \<open>A write replaces the whole text; data that is not a text is refused with a TypeError.\<close>

definition writeFile :: "file_text option \<Rightarrow> fs \<Rightarrow> (error + unit) \<times> fs" where
  "writeFile d s =
     (case d of
        None \<Rightarrow> (Inl TypeError, s)
      | Some t \<Rightarrow>
          (case write_fault s of
             Some c \<Rightarrow> (Inl (FsError c), s)
           | None \<Rightarrow> (Inr (), s\<lparr>data_file := Some t, writes := Suc (writes s)\<rparr>)))"

section \<open>NotesRepository\<close>

definition ensureDataFileExists :: "fs \<Rightarrow> (error + unit) \<times> fs" where
  "ensureDataFileExists s =
     (if data_file s = None then writeFile (Some (Json (JArr []))) s else (Inr (), s))"

definition readNotes :: "fs \<Rightarrow> error + jsval" where
  "readNotes s =
     (case readFile s of
        Inl e \<Rightarrow> Inl e
      | Inr fileContent \<Rightarrow> JSON_parse fileContent)"

definition writeNotes :: "jsval \<Rightarrow> fs \<Rightarrow> (error + unit) \<times> fs" where
  "writeNotes notes s = writeFile (JSON_stringify notes) s"

section \<open>NotesService\<close>

text \<open>
  A DTO is an object; \<^verbatim>\<open>uuidv4()\<close> and \<^verbatim>\<open>new Date()\<close> are inputs of the
  operations: the identifier and the time value the platform hands out at the call.
\<close>

type_synonym dto = "(string \<times> jsval) list"

definition id_matches :: "string \<Rightarrow> jsval \<Rightarrow> error + bool" where
  "id_matches i n =
     (case get_prop n ''id'' of
        Inl e \<Rightarrow> Inl e
      | Inr v \<Rightarrow> Inr (v = JStr i))"

definition not_found :: "string \<Rightarrow> error" where
  "not_found i =
     NotFoundException (''Note with ID '' @ [char_of (34::nat)] @ i @ [char_of (34::nat)] @ '' not found'')"

definition new_note :: "dto \<Rightarrow> string \<Rightarrow> int \<Rightarrow> jsval" where
  "new_note createNoteDto uuid now =
     JObj (set_prop ''updatedAt'' (JDate now)
          (set_prop ''createdAt'' (JDate now)
          (set_prop ''tags''
             (if truthy (lookup createNoteDto ''tags'') then lookup createNoteDto ''tags''
              else JArr [])
          (spread createNoteDto [(''id'', JStr uuid)]))))"

definition create :: "dto \<Rightarrow> string \<Rightarrow> int \<Rightarrow> fs \<Rightarrow> (error + jsval) \<times> fs" where
  "create createNoteDto uuid now s =
     (let newNote = new_note createNoteDto uuid now in
      case readNotes s of
        Inl e \<Rightarrow> (Inl e, s)
      | Inr notes \<Rightarrow>
          (case as_array notes of
             Inl e \<Rightarrow> (Inl e, s)
           | Inr ns \<Rightarrow>
               (case writeNotes (JArr (ns @ [newNote])) s of
                  (Inl e, s') \<Rightarrow> (Inl e, s')
                | (Inr u, s') \<Rightarrow> (Inr newNote, s'))))"

definition findAll :: "fs \<Rightarrow> (error + jsval) \<times> fs" where
  "findAll s = (readNotes s, s)"

definition findOne :: "string \<Rightarrow> fs \<Rightarrow> (error + jsval) \<times> fs" where
  "findOne i s =
     (case readNotes s of
        Inl e \<Rightarrow> (Inl e, s)
      | Inr notes \<Rightarrow>
          (case as_array notes of
             Inl e \<Rightarrow> (Inl e, s)
           | Inr ns \<Rightarrow>
               (case find_js (id_matches i) ns of
                  Inl e \<Rightarrow> (Inl e, s)
                | Inr note \<Rightarrow>
                    if \<not> truthy note then (Inl (not_found i), s)
                    else (Inr note, s))))"

definition merged :: "jsval \<Rightarrow> dto \<Rightarrow> int \<Rightarrow> jsval" where
  "merged note updateNoteDto now =
     JObj (set_prop ''updatedAt'' (JDate now) (spread updateNoteDto (own_props note)))"

definition update :: "string \<Rightarrow> dto \<Rightarrow> int \<Rightarrow> fs \<Rightarrow> (error + jsval) \<times> fs" where
  "update i updateNoteDto now s =
     (case readNotes s of
        Inl e \<Rightarrow> (Inl e, s)
      | Inr notes \<Rightarrow>
          (case as_array notes of
             Inl e \<Rightarrow> (Inl e, s)
           | Inr ns \<Rightarrow>
               (case findIndex (id_matches i) ns of
                  Inl e \<Rightarrow> (Inl e, s)
                | Inr noteIndex \<Rightarrow>
                    if noteIndex = - 1 then (Inl (not_found i), s)
                    else
                      (let updatedNote = merged (ns ! nat noteIndex) updateNoteDto now in
                       case writeNotes (JArr (ns[nat noteIndex := updatedNote])) s of
                         (Inl e, s') \<Rightarrow> (Inl e, s')
                       | (Inr u, s') \<Rightarrow> (Inr updatedNote, s')))))"

definition remove :: "string \<Rightarrow> fs \<Rightarrow> (error + jsval) \<times> fs" where
  "remove i s =
     (case readNotes s of
        Inl e \<Rightarrow> (Inl e, s)
      | Inr notes \<Rightarrow>
          (case as_array notes of
             Inl e \<Rightarrow> (Inl e, s)
           | Inr ns \<Rightarrow>
               (case findIndex (id_matches i) ns of
                  Inl e \<Rightarrow> (Inl e, s)
                | Inr noteIndex \<Rightarrow>
                    if noteIndex = - 1 then (Inl (not_found i), s)
                    else
                      (case writeNotes (JArr (splice1 (nat noteIndex) ns)) s of
                         (Inl e, s') \<Rightarrow> (Inl e, s')
                       | (Inr u, s') \<Rightarrow> (Inr JUndefined, s')))))"

section \<open>NotesController\<close>

definition getAllNotes :: "fs \<Rightarrow> (error + jsval) \<times> fs" where
  "getAllNotes s = findAll s"

section \<open>Collections of records\<close>

text \<open>
  The vocabulary of the properties below. A record is an object; a record has the
  identifier \<open>i\<close> when the callback of \<^verbatim>\<open>find\<close> and \<^verbatim>\<open>findIndex\<close> accepts it.
  A collection is an array of records that a JSON text can denote, and a store holds
  the collection \<open>ns\<close> when its data file can be read and its text denotes \<open>ns\<close>.
\<close>

fun is_record :: "jsval \<Rightarrow> bool" where
  "is_record (JObj ps) = True"
| "is_record v = False"

definition has_id :: "string \<Rightarrow> jsval \<Rightarrow> bool" where
  "has_id i n = (get_prop n ''id'' = Inr (JStr i))"

definition collection :: "jsval list \<Rightarrow> bool" where
  "collection ns = (list_all is_record ns \<and> is_json_elems ns)"

definition holds :: "fs \<Rightarrow> jsval list \<Rightarrow> bool" where
  "holds s ns =
     (read_fault s = None \<and> data_file s = Some (Json (JArr ns)) \<and> collection ns)"

text \<open>The names of the properties of an object, and the shape of the two DTO classes.\<close>

definition keys :: "(string \<times> jsval) list \<Rightarrow> string set" where
  "keys ps = fst ` set ps"

definition dto_shaped :: "dto \<Rightarrow> bool" where
  "dto_shaped d = (distinct (map fst d) \<and> keys d \<subseteq> {''title'', ''content'', ''tags''})"

text \<open>The store after a successful \<^verbatim>\<open>writeNotes(notes)\<close>.\<close>

definition written :: "jsval list \<Rightarrow> fs \<Rightarrow> fs" where
  "written ns s = s\<lparr>data_file := Some (Json (JArr ns)), writes := Suc (writes s)\<rparr>"

subsection \<open>The search of the specification\<close>

text \<open>
  The list operation as the specification words it, to compare \<open>findAll\<close> with: an
  absent or empty term gives the whole sequence; any other term keeps the records in
  which it occurs, the case of the letters A to Z ignored, in the title, the content
  or one of the tags.
\<close>

definition lower_char :: "char \<Rightarrow> char" where
  "lower_char c =
     (case map_of (zip ''ABCDEFGHIJKLMNOPQRSTUVWXYZ'' ''abcdefghijklmnopqrstuvwxyz'') c of
        None \<Rightarrow> c
      | Some l \<Rightarrow> l)"

fun occurs_in :: "string \<Rightarrow> string \<Rightarrow> bool" where
  "occurs_in t [] = (t = [])"
| "occurs_in t (c # cs) = (take (length t) (c # cs) = t \<or> occurs_in t cs)"

fun mentions :: "string \<Rightarrow> jsval \<Rightarrow> bool" where
  "mentions t (JStr s) = occurs_in (map lower_char t) (map lower_char s)"
| "mentions t v = False"

fun some_mentions :: "string \<Rightarrow> jsval \<Rightarrow> bool" where
  "some_mentions t (JArr xs) = list_ex (mentions t) xs"
| "some_mentions t v = False"

fun spec_matches :: "string \<Rightarrow> jsval \<Rightarrow> bool" where
  "spec_matches t (JObj ps) =
     (mentions t (lookup ps ''title'') \<or> mentions t (lookup ps ''content'')
      \<or> some_mentions t (lookup ps ''tags''))"
| "spec_matches t v = False"

definition spec_findAll :: "string option \<Rightarrow> jsval list \<Rightarrow> jsval list" where
  "spec_findAll searchTerm ns =
     (case searchTerm of
        None \<Rightarrow> ns
      | Some t \<Rightarrow> if t = [] then ns else filter (spec_matches t) ns)"

subsection \<open>The shape of the \<^verbatim>\<open>Note\<close> interface\<close>

fun is_text :: "jsval \<Rightarrow> bool" where
  "is_text (JStr s) = True"
| "is_text v = False"

fun is_tags :: "jsval \<Rightarrow> bool" where
  "is_tags (JArr xs) = list_all is_text xs"
| "is_tags v = False"

fun is_note :: "jsval \<Rightarrow> bool" where
  "is_note (JObj ps) =
     (is_text (lookup ps ''id'') \<and> is_text (lookup ps ''title'')
      \<and> is_text (lookup ps ''content'') \<and> is_tags (lookup ps ''tags'')
      \<and> is_text (lookup ps ''createdAt'') \<and> is_text (lookup ps ''updatedAt''))"
| "is_note v = False"

fun is_notes :: "jsval \<Rightarrow> bool" where
  "is_notes (JArr ns) = list_all is_note ns"
| "is_notes v = False"

subsection \<open>Runs of the service\<close>

text \<open>
  The time value of a \<^verbatim>\<open>Date\<close> lies within 8640000000000000 milliseconds of the
  epoch; \<^verbatim>\<open>new Date()\<close> gives no other.
\<close>

definition valid_time :: "int \<Rightarrow> bool" where
  "valid_time t = (- 8640000000000000 \<le> t \<and> t \<le> 8640000000000000)"

text \<open>
  The stores a run of the service can reach from the empty collection, with the time
  of the last operation. Every operation happens at a time not before the previous
  one, the patch of an update is one that \<open>patch\<close> admits, and between two
  operations the platform may start or stop refusing reads and writes.
\<close>

inductive reachable :: "(dto \<Rightarrow> bool) \<Rightarrow> fs \<Rightarrow> int \<Rightarrow> bool"
  for patch :: "dto \<Rightarrow> bool" where
  r_empty: "data_file s = Some (Json (JArr [])) \<Longrightarrow> reachable patch s t"
| r_create: "reachable patch s t \<Longrightarrow> t \<le> now \<Longrightarrow> valid_time now \<Longrightarrow>
             reachable patch (snd (create d uuid now s)) now"
| r_findAll: "reachable patch s t \<Longrightarrow> t \<le> now \<Longrightarrow> reachable patch (snd (findAll s)) now"
| r_findOne: "reachable patch s t \<Longrightarrow> t \<le> now \<Longrightarrow> reachable patch (snd (findOne i s)) now"
| r_update: "reachable patch s t \<Longrightarrow> t \<le> now \<Longrightarrow> valid_time now \<Longrightarrow> patch d \<Longrightarrow>
             reachable patch (snd (update i d now s)) now"
| r_remove: "reachable patch s t \<Longrightarrow> t \<le> now \<Longrightarrow> reachable patch (snd (remove i s)) now"
| r_faults: "reachable patch s t \<Longrightarrow>
             reachable patch (s\<lparr>read_fault := r, write_fault := w\<rparr>) t"

text \<open>The patches a run may use: any object at all, or any object with no \<^verbatim>\<open>createdAt\<close>.\<close>

definition any_patch :: "dto \<Rightarrow> bool" where
  "any_patch d = True"

definition keeps_createdAt :: "dto \<Rightarrow> bool" where
  "keeps_createdAt d = (''createdAt'' \<notin> keys d)"

text \<open>
  A stored record has ordered timestamps when its \<^verbatim>\<open>createdAt\<close> and \<^verbatim>\<open>updatedAt\<close>
  are the ISO texts of two time values, the first not after the second. The data
  file keeps a timestamp as the text \<^verbatim>\<open>JSON.stringify\<close> made of the \<^verbatim>\<open>Date\<close>; two
  time values with the same text are equal, so the order is that of the instants the
  two texts stand for.
\<close>

definition stamps_ordered :: "jsval \<Rightarrow> bool" where
  "stamps_ordered n =
     (\<exists>c u. valid_time c \<and> valid_time u \<and> c \<le> u
        \<and> get_prop n ''createdAt'' = Inr (JStr (toISOString c))
        \<and> get_prop n ''updatedAt'' = Inr (JStr (toISOString u)))"

definition stamped_by :: "int \<Rightarrow> jsval \<Rightarrow> bool" where
  "stamped_by t n =
     (\<exists>c u. valid_time c \<and> valid_time u \<and> c \<le> u \<and> u \<le> t
        \<and> get_prop n ''createdAt'' = Inr (JStr (toISOString c))
        \<and> get_prop n ''updatedAt'' = Inr (JStr (toISOString u)))"

text \<open>
  The invariant of a run: the data file holds a collection in which every record is
  stamped with two ordered instants, none after the time of the last operation.
\<close>

definition kept :: "fs \<Rightarrow> int \<Rightarrow> bool" where
  "kept s t =
     (\<exists>ns. data_file s = Some (Json (JArr ns)) \<and> collection ns \<and> list_all (stamped_by t) ns)"

subsection \<open>Sample data\<close>

definition empty_store :: fs where
  "empty_store = \<lparr>data_file = Some (Json (JArr [])), read_fault = None, write_fault = None, writes = 0\<rparr>"

definition t1_dto :: dto where
  "t1_dto = [(''title'', JStr ''T1''), (''content'', JStr ''C1''), (''tags'', JArr [JStr ''a''])]"


definition hook_note :: jsval where
  "hook_note = JObj [(''id'', JStr ''n1''), (''title'', JStr ''React Hook''),
     (''content'', JStr ''no match''), (''tags'', JArr [JStr ''frontend'']),
     (''createdAt'', JStr ''2026-01-31T00:00:00.000Z''),
     (''updatedAt'', JStr ''2026-01-31T00:00:00.000Z'')]"

definition unrelated_note :: jsval where
  "unrelated_note = JObj [(''id'', JStr ''n2''), (''title'', JStr ''Unrelated''),
     (''content'', JStr ''nothing''), (''tags'', JArr []),
     (''createdAt'', JStr ''2026-01-31T00:00:00.000Z''),
     (''updatedAt'', JStr ''2026-01-31T00:00:00.000Z'')]"

definition two_notes :: fs where
  "two_notes = \<lparr>data_file = Some (Json (JArr [hook_note, unrelated_note])),
     read_fault = None, write_fault = None, writes = 0\<rparr>"

definition t1_stored :: jsval where
  "t1_stored = JObj [(''id'', JStr ''u1''), (''title'', JStr ''T1''), (''content'', JStr ''C1''),
     (''tags'', JArr [JStr ''a'']),
     (''createdAt'', JStr ''1970-01-01T00:00:00.000Z''),
     (''updatedAt'', JStr ''1970-01-01T00:00:00.000Z'')]"

definition one_note :: fs where
  "one_note = \<lparr>data_file = Some (Json (JArr [t1_stored])),
     read_fault = None, write_fault = None, writes = 1\<rparr>"

definition misshapen :: fs where
  "misshapen = \<lparr>data_file = Some (Json (JObj [])),
     read_fault = None, write_fault = None, writes = 0\<rparr>"

definition garbled :: fs where
  "garbled = \<lparr>data_file = Some Malformed,
     read_fault = None, write_fault = None, writes = 0\<rparr>"

section \<open>Properties\<close>

subsection \<open>Objects, JSON and array scans\<close>

lemmas iso_defs = toISOString_def era_text_def time_text_def date_text_def year_text_def
  civil_year_def civil_day_def civil_month_def month_of_def day_of_year_def year_of_era_def
  pad2_def pad3_def pad4_def pad6_def digit_def

lemma lookup_Nil: "lookup [] k = JUndefined"
  by (simp add: lookup_def)

lemma lookup_Cons: "lookup ((k', v) # ps) k = (if k = k' then v else lookup ps k)"
  by (simp add: lookup_def)

lemma comes_before_name [simp]: "array_index k = None \<Longrightarrow> comes_before k k' = False"
  by (simp add: comes_before_def)

lemma field_names_are_no_indices [simp]:
  "array_index ''id'' = None" "array_index ''title'' = None" "array_index ''content'' = None"
  "array_index ''tags'' = None" "array_index ''createdAt'' = None"
  "array_index ''updatedAt'' = None"
  by (simp_all add: array_index_def is_digit_def)

lemma lookup_set_prop: "lookup (set_prop k v ps) k' = (if k' = k then v else lookup ps k')"
proof (induction ps)
  case Nil
  then show ?case by (simp add: lookup_Cons lookup_Nil)
next
  case (Cons p ps)
  obtain k0 v0 where p: "p = (k0, v0)" by (cases p)
  show ?case using Cons.IH by (auto simp: p lookup_Cons)
qed

lemma keys_set_prop: "fst ` set (set_prop k v ps) = insert k (fst ` set ps)"
proof (induction ps)
  case Nil
  then show ?case by simp
next
  case (Cons p ps)
  obtain k' v' where p: "p = (k', v')" by (cases p)
  show ?case using Cons.IH by (cases "k' = k") (auto simp: p)
qed

lemma distinct_set_prop: "distinct (map fst ps) \<Longrightarrow> distinct (map fst (set_prop k v ps))"
proof (induction ps)
  case Nil
  then show ?case by simp
next
  case (Cons p ps)
  obtain k' v' where p: "p = (k', v')" by (cases p)
  from Cons have a: "k' \<notin> fst ` set ps" and b: "distinct (map fst (set_prop k v ps))"
    and c: "distinct (map fst ps)"
    by (auto simp: p)
  show ?case
  proof (cases "k' = k")
    case True
    then show ?thesis using a c by (simp add: p)
  next
    case False
    then have "k' \<notin> fst ` set (set_prop k v ps)" using a by (simp add: keys_set_prop)
    then show ?thesis using False a b c by (auto simp: p)
  qed
qed

lemma lookup_absent: "k \<notin> fst ` set ps \<Longrightarrow> lookup ps k = JUndefined"
  by (induction ps) (auto simp: lookup_Cons lookup_Nil)

lemma lookup_spread_other: "k \<notin> fst ` set src \<Longrightarrow> lookup (spread src target) k = lookup target k"
  by (induction src target rule: spread.induct) (auto simp: lookup_set_prop)

lemma lookup_spread:
  "distinct (map fst src) \<Longrightarrow>
   lookup (spread src target) k = (if k \<in> fst ` set src then lookup src k else lookup target k)"
proof (induction src target rule: spread.induct)
  case (1 target)
  then show ?case by simp
next
  case (2 k' v src target)
  then have k': "k' \<notin> fst ` set src" and d: "distinct (map fst src)"
    by (auto simp flip: set_map)
  show ?case
  proof (cases "k = k'")
    case True
    then show ?thesis using k' by (simp add: lookup_spread_other lookup_set_prop lookup_Cons)
  next
    case False
    then show ?thesis using 2(1)[OF d] by (simp add: lookup_set_prop lookup_Cons)
  qed
qed

lemma lookup_to_json_props:
  "lookup ps k \<noteq> JUndefined \<Longrightarrow> lookup (to_json_props ps) k = to_json (lookup ps k)"
proof (induction ps)
  case Nil
  then show ?case by (simp add: lookup_Nil)
next
  case (Cons p ps)
  obtain k' v' where p: "p = (k', v')" by (cases p)
  show ?case using Cons by (auto simp: p lookup_Cons)
qed

lemma to_json_ident:
  "is_json v \<Longrightarrow> to_json v = v"
  "is_json_elems xs \<Longrightarrow> to_json_elems xs = xs"
  "is_json_props ps \<Longrightarrow> to_json_props ps = ps"
  by (induction v and xs and ps rule: to_json_to_json_elems_to_json_props.induct) auto

lemma to_json_elems_append: "to_json_elems (xs @ ys) = to_json_elems xs @ to_json_elems ys"
  by (induction xs) auto

lemma is_json_elems_iff: "is_json_elems xs = (\<forall>x\<in>set xs. is_json x)"
  by (induction xs) auto

lemma to_json_elems_update:
  "to_json_elems (xs[k := x]) = (to_json_elems xs)[k := (if x = JUndefined then JNull else to_json x)]"
  by (induction xs arbitrary: k) (auto split: nat.splits)

lemma id_matches_record: "is_record n \<Longrightarrow> id_matches i n = Inr (has_id i n)"
  by (cases n) (auto simp: id_matches_def has_id_def)

lemma find_js_records:
  "list_all is_record ns \<Longrightarrow>
   find_js (id_matches i) ns = Inr (case List.find (has_id i) ns of None \<Rightarrow> JUndefined | Some n \<Rightarrow> n)"
  by (induction ns) (auto simp: id_matches_record)

lemma findIndex_records:
  "list_all is_record ns \<Longrightarrow>
   \<exists>r. findIndex (id_matches i) ns = Inr r \<and>
       (r = - 1 \<longleftrightarrow> \<not> list_ex (has_id i) ns) \<and>
       (r \<noteq> - 1 \<longrightarrow> 0 \<le> r \<and> nat r < length ns \<and> has_id i (ns ! nat r) \<and>
          (\<forall>j < nat r. \<not> has_id i (ns ! j)))"
proof (induction ns)
  case Nil
  then show ?case by simp
next
  case (Cons n ns)
  then obtain r where r: "findIndex (id_matches i) ns = Inr r"
    "r = - 1 \<longleftrightarrow> \<not> list_ex (has_id i) ns"
    "r \<noteq> - 1 \<longrightarrow> 0 \<le> r \<and> nat r < length ns \<and> has_id i (ns ! nat r) \<and>
          (\<forall>j < nat r. \<not> has_id i (ns ! j))"
    by auto
  from Cons.prems have n: "id_matches i n = Inr (has_id i n)"
    by (simp add: id_matches_record)
  show ?case
  proof (cases "has_id i n")
    case True
    then show ?thesis using n by simp
  next
    case False
    show ?thesis
    proof (cases "r = - 1")
      case True
      then show ?thesis using n False r by simp
    next
      case neq: False
      with r have b: "0 \<le> r" "nat r < length ns" "has_id i (ns ! nat r)"
        "\<forall>j < nat r. \<not> has_id i (ns ! j)" by auto
      have "nat (r + 1) = Suc (nat r)" using b by simp
      moreover have "\<forall>j < Suc (nat r). \<not> has_id i ((n # ns) ! j)"
        using False b(4) by (auto simp: nth_Cons split: nat.splits)
      ultimately show ?thesis using n False r(1,2) neq b by simp
    qed
  qed
qed


lemma is_json_to_json:
  "v \<noteq> JUndefined \<Longrightarrow> is_json (to_json v)"
  "is_json_elems (to_json_elems xs)"
  "is_json_props (to_json_props ps)"
  by (induction v and xs and ps rule: to_json_to_json_elems_to_json_props.induct) auto

subsection \<open>Creating a note\<close>

lemma readNotes_holds: "holds s ns \<Longrightarrow> readNotes s = Inr (JArr ns)"
  by (simp add: holds_def readNotes_def readFile_def JSON_parse_def)

lemma writeNotes_array:
  "write_fault s = None \<Longrightarrow> writeNotes (JArr xs) s = (Inr (), written (to_json_elems xs) s)"
  by (simp add: writeNotes_def writeFile_def JSON_stringify_def written_def)

lemma new_note_stamps:
  "get_prop (new_note d uuid now) ''createdAt'' = Inr (JDate now)"
  "get_prop (new_note d uuid now) ''updatedAt'' = Inr (JDate now)"
  by (simp_all add: new_note_def lookup_set_prop)

lemma new_note_id:
  "''id'' \<notin> keys d \<Longrightarrow> get_prop (new_note d uuid now) ''id'' = Inr (JStr uuid)"
  by (simp add: new_note_def lookup_set_prop lookup_spread_other keys_def lookup_Cons)

lemma new_note_not_undefined: "new_note d uuid now \<noteq> JUndefined"
  by (simp add: new_note_def)

lemma create_holds:
  assumes "holds s ns" and "write_fault s = None"
  shows "create d uuid now s =
           (Inr (new_note d uuid now), written (ns @ [to_json (new_note d uuid now)]) s)"
proof -
  have "is_json_elems ns" using assms(1) by (simp add: holds_def collection_def)
  then have "to_json_elems (ns @ [new_note d uuid now]) = ns @ [to_json (new_note d uuid now)]"
    by (simp add: to_json_elems_append to_json_ident new_note_not_undefined)
  then show ?thesis
    using assms by (simp add: create_def readNotes_holds writeNotes_array Let_def)
qed

subsection \<open>Looking a note up\<close>

lemma collection_parts:
  "holds s ns \<Longrightarrow> list_all is_record ns"
  "holds s ns \<Longrightarrow> is_json_elems ns"
  by (simp_all add: holds_def collection_def)

lemma writeNotes_cases:
  "writeNotes (JArr xs) s =
     (case write_fault s of
        Some c \<Rightarrow> (Inl (FsError c), s)
      | None \<Rightarrow> (Inr (), written (to_json_elems xs) s))"
  by (simp add: writeNotes_def writeFile_def JSON_stringify_def written_def split: option.splits)

lemma findIndex_absent:
  assumes "list_all is_record ns" and "\<not> list_ex (has_id i) ns"
  shows "findIndex (id_matches i) ns = Inr (- 1)"
  using findIndex_records[OF assms(1), of i] assms(2) by auto

lemma findIndex_first:
  assumes "list_all is_record ns" and "k < length ns" and "has_id i (ns ! k)"
    and "\<forall>j<k. \<not> has_id i (ns ! j)"
  shows "findIndex (id_matches i) ns = Inr (int k)"
proof -
  obtain r where r: "findIndex (id_matches i) ns = Inr r"
    "r = - 1 \<longleftrightarrow> \<not> list_ex (has_id i) ns"
    "r \<noteq> - 1 \<longrightarrow> 0 \<le> r \<and> nat r < length ns \<and> has_id i (ns ! nat r) \<and>
          (\<forall>j < nat r. \<not> has_id i (ns ! j))"
    using findIndex_records[OF assms(1), of i] by auto
  have "list_ex (has_id i) ns"
    using assms(2,3) by (auto simp: list_ex_iff)
  then have ne: "r \<noteq> - 1" using r(2) by simp
  with r(3) have p: "0 \<le> r" "has_id i (ns ! nat r)" "\<forall>j < nat r. \<not> has_id i (ns ! j)"
    by auto
  have "\<not> nat r < k" using assms(4) p(2) by auto
  moreover have "\<not> k < nat r" using assms(3) p(3) by auto
  ultimately have "nat r = k" by simp
  then have "r = int k" using p(1) by simp
  then show ?thesis using r(1) by simp
qed

lemma first_position:
  assumes "list_ex (has_id i) ns"
  shows "\<exists>k<length ns. has_id i (ns ! k) \<and> (\<forall>j<k. \<not> has_id i (ns ! j))"
  using assms
proof (induction ns)
  case Nil
  then show ?case by simp
next
  case (Cons n ns)
  show ?case
  proof (cases "has_id i n")
    case True
    then have "0 < length (n # ns) \<and> has_id i ((n # ns) ! 0) \<and> (\<forall>j<0. \<not> has_id i ((n # ns) ! j))"
      by simp
    then show ?thesis by blast
  next
    case False
    with Cons obtain k where k: "k < length ns" "has_id i (ns ! k)" "\<forall>j<k. \<not> has_id i (ns ! j)"
      by auto
    have "\<forall>j<Suc k. \<not> has_id i ((n # ns) ! j)"
      using False k(3) by (auto simp: nth_Cons split: nat.splits)
    then have "Suc k < length (n # ns) \<and> has_id i ((n # ns) ! Suc k)
        \<and> (\<forall>j<Suc k. \<not> has_id i ((n # ns) ! j))"
      using k by simp
    then show ?thesis by blast
  qed
qed

lemma findOne_holds:
  assumes "holds s ns"
  shows "findOne i s =
           (case List.find (has_id i) ns of
              None \<Rightarrow> (Inl (not_found i), s)
            | Some n \<Rightarrow> (Inr n, s))"
proof -
  have rec: "list_all is_record ns" using assms by (rule collection_parts)
  show ?thesis
  proof (cases "List.find (has_id i) ns")
    case None
    then show ?thesis
      using assms rec by (simp add: findOne_def readNotes_holds find_js_records)
  next
    case (Some n)
    then have "n \<in> set ns" by (auto simp: find_Some_iff)
    then have "is_record n" using rec by (simp add: list_all_iff)
    then have "truthy n" by (cases n) auto
    then show ?thesis
      using assms rec Some by (simp add: findOne_def readNotes_holds find_js_records)
  qed
qed

lemma update_absent:
  assumes "holds s ns" and "\<not> list_ex (has_id i) ns"
  shows "update i d now s = (Inl (not_found i), s)"
  using assms
  by (simp add: update_def readNotes_holds findIndex_absent collection_parts)

lemma remove_absent:
  assumes "holds s ns" and "\<not> list_ex (has_id i) ns"
  shows "remove i s = (Inl (not_found i), s)"
  using assms
  by (simp add: remove_def readNotes_holds findIndex_absent collection_parts)

lemma merged_not_undefined: "merged n d now \<noteq> JUndefined"
  by (simp add: merged_def)

lemma update_present:
  assumes "holds s ns" and "k < length ns" and "has_id i (ns ! k)"
    and "\<forall>j<k. \<not> has_id i (ns ! j)"
  shows "update i d now s =
           (case write_fault s of
              Some c \<Rightarrow> (Inl (FsError c), s)
            | None \<Rightarrow> (Inr (merged (ns ! k) d now),
                       written (ns[k := to_json (merged (ns ! k) d now)]) s))"
proof -
  have idx: "findIndex (id_matches i) ns = Inr (int k)"
    using assms by (simp add: findIndex_first collection_parts)
  have "to_json_elems (ns[k := merged (ns ! k) d now]) = ns[k := to_json (merged (ns ! k) d now)]"
    using collection_parts(2)[OF assms(1)]
    by (simp add: to_json_elems_update to_json_ident merged_not_undefined)
  then show ?thesis
    using assms(1) idx
    by (simp add: update_def readNotes_holds writeNotes_cases Let_def split: option.splits)
qed

lemma is_json_splice1: "is_json_elems ns \<Longrightarrow> is_json_elems (splice1 k ns)"
  by (auto simp: is_json_elems_iff splice1_def dest: in_set_takeD in_set_dropD)

lemma remove_present:
  assumes "holds s ns" and "k < length ns" and "has_id i (ns ! k)"
    and "\<forall>j<k. \<not> has_id i (ns ! j)"
  shows "remove i s =
           (case write_fault s of
              Some c \<Rightarrow> (Inl (FsError c), s)
            | None \<Rightarrow> (Inr JUndefined, written (splice1 k ns) s))"
proof -
  have idx: "findIndex (id_matches i) ns = Inr (int k)"
    using assms by (simp add: findIndex_first collection_parts)
  have "to_json_elems (splice1 k ns) = splice1 k ns"
    using collection_parts(2)[OF assms(1)] by (simp add: to_json_ident is_json_splice1)
  then show ?thesis
    using assms(1) idx
    by (simp add: remove_def readNotes_holds writeNotes_cases split: option.splits)
qed

lemma find_None_ex: "(List.find P xs = None) = (\<not> list_ex P xs)"
  by (auto simp: find_None_iff list_ex_iff)

text \<open>
  Claim C4. On a store that holds a collection, \<open>findOne\<close>, \<open>update\<close> and
  \<open>remove\<close> fail with a \<^verbatim>\<open>NotFoundException\<close> exactly when no record of the
  collection has the identifier; the exception names the identifier, and the store
  after the failed call is the store before it: nothing was written.
\<close>

theorem not_found_exactly_when_absent:
  assumes "holds s ns"
  shows "((\<exists>m. fst (findOne i s) = Inl (NotFoundException m)) \<longleftrightarrow> \<not> list_ex (has_id i) ns)
       \<and> ((\<exists>m. fst (update i d now s) = Inl (NotFoundException m)) \<longleftrightarrow> \<not> list_ex (has_id i) ns)
       \<and> ((\<exists>m. fst (remove i s) = Inl (NotFoundException m)) \<longleftrightarrow> \<not> list_ex (has_id i) ns)
       \<and> (\<not> list_ex (has_id i) ns \<longrightarrow>
            findOne i s = (Inl (not_found i), s)
          \<and> update i d now s = (Inl (not_found i), s)
          \<and> remove i s = (Inl (not_found i), s))"
proof (cases "list_ex (has_id i) ns")
  case False
  then have "List.find (has_id i) ns = None" by (simp add: find_None_ex)
  then have "findOne i s = (Inl (not_found i), s)"
    using findOne_holds[OF assms, of i] by simp
  then show ?thesis
    using False update_absent[OF assms False, of d now] remove_absent[OF assms False]
    by (simp add: not_found_def)
next
  case True
  then obtain k where k: "k < length ns" "has_id i (ns ! k)" "\<forall>j<k. \<not> has_id i (ns ! j)"
    using first_position by blast
  from True obtain n where "List.find (has_id i) ns = Some n"
    by (cases "List.find (has_id i) ns") (auto simp: find_None_ex)
  then have one: "fst (findOne i s) = Inr n"
    using findOne_holds[OF assms, of i] by simp
  have upd: "\<not> (\<exists>m. fst (update i d now s) = Inl (NotFoundException m))"
    using update_present[OF assms k, of d now] by (auto split: option.splits)
  have rem: "\<not> (\<exists>m. fst (remove i s) = Inl (NotFoundException m))"
    using remove_present[OF assms k] by (auto split: option.splits)
  show ?thesis using True one upd rem by simp
qed

lemma holds_two_notes: "holds two_notes [hook_note, unrelated_note]"
  by (simp add: holds_def two_notes_def collection_def hook_note_def unrelated_note_def)

theorem not_found_exactly_when_absent_witness:
  "holds two_notes [hook_note, unrelated_note]
   \<and> \<not> list_ex (has_id ''zz'') [hook_note, unrelated_note]
   \<and> findOne ''zz'' two_notes = (Inl (not_found ''zz''), two_notes)
   \<and> update ''zz'' [(''title'', JStr ''Z'')] 9 two_notes = (Inl (not_found ''zz''), two_notes)
   \<and> remove ''zz'' two_notes = (Inl (not_found ''zz''), two_notes)
   \<and> list_ex (has_id ''n2'') [hook_note, unrelated_note]
   \<and> (\<forall>m. fst (findOne ''n2'' two_notes) \<noteq> Inl (NotFoundException m))"
proof -
  have a: "\<not> list_ex (has_id ''zz'') [hook_note, unrelated_note]"
    by (simp add: has_id_def hook_note_def unrelated_note_def lookup_def)
  have b: "list_ex (has_id ''n2'') [hook_note, unrelated_note]"
    by (simp add: has_id_def hook_note_def unrelated_note_def lookup_def)
  show ?thesis
    using not_found_exactly_when_absent[OF holds_two_notes, of "''zz''" "[(''title'', JStr ''Z'')]" 9]
      not_found_exactly_when_absent[OF holds_two_notes, of "''n2''" "[]" 0]
      holds_two_notes a b
    by auto
qed

subsection \<open>Updating a note\<close>

lemma keys_spread: "keys (spread src target) = keys src \<union> keys target"
  unfolding keys_def
  by (induction src target rule: spread.induct) (auto simp: keys_set_prop)

lemma keys_to_json_props: "keys (to_json_props ps) \<subseteq> keys ps"
  unfolding keys_def
proof (induction ps)
  case Nil
  then show ?case by simp
next
  case (Cons p ps)
  obtain k v where p: "p = (k, v)" by (cases p)
  show ?case using Cons by (auto simp: p)
qed

lemma is_json_lookup: "is_json_props ps \<Longrightarrow> k \<in> keys ps \<Longrightarrow> is_json (lookup ps k)"
  unfolding keys_def
proof (induction ps)
  case Nil
  then show ?case by simp
next
  case (Cons p ps)
  obtain k' v where p: "p = (k', v)" by (cases p)
  show ?case using Cons by (auto simp: p lookup_Cons)
qed

lemma lookup_absent_keys: "k \<notin> keys ps \<Longrightarrow> lookup ps k = JUndefined"
  by (simp add: keys_def lookup_absent)

lemma is_json_defined: "is_json v \<Longrightarrow> v \<noteq> JUndefined"
  by auto

text \<open>A property whose value is JSON is stored as it is; one that is absent stays absent.\<close>

lemma lookup_stored:
  assumes "k \<in> keys ps \<longrightarrow> is_json (lookup ps k)"
  shows "lookup (to_json_props ps) k = lookup ps k"
proof (cases "k \<in> keys ps")
  case True
  with assms have j: "is_json (lookup ps k)" by simp
  then have "lookup ps k \<noteq> JUndefined" by (rule is_json_defined)
  then show ?thesis using j by (simp add: lookup_to_json_props to_json_ident)
next
  case False
  then have "k \<notin> keys (to_json_props ps)" using keys_to_json_props by blast
  then show ?thesis using False by (simp add: lookup_absent_keys)
qed

lemma record_of_collection:
  assumes "holds s ns" and "k < length ns"
  obtains ps where "ns ! k = JObj ps" and "is_json_props ps"
proof -
  have "is_record (ns ! k)" and j: "is_json (ns ! k)"
    using assms by (auto simp: holds_def collection_def list_all_length is_json_elems_iff)
  then obtain ps where "ns ! k = JObj ps" by (cases "ns ! k") auto
  then show ?thesis using j that by simp
qed

lemma merged_lookup:
  "distinct (map fst d) \<Longrightarrow>
   get_prop (merged (JObj ps) d now) key =
     Inr (if key = ''updatedAt'' then JDate now
          else if key \<in> keys d then lookup d key else lookup ps key)"
  by (simp add: merged_def lookup_set_prop lookup_spread keys_def)

lemma merged_lookup_other:
  "key \<notin> keys d \<Longrightarrow> key \<noteq> ''updatedAt'' \<Longrightarrow>
   get_prop (merged (JObj ps) d now) key = Inr (lookup ps key)"
  by (simp add: merged_def lookup_set_prop lookup_spread_other keys_def)

lemma merged_updatedAt: "get_prop (merged n d now) ''updatedAt'' = Inr (JDate now)"
  by (simp add: merged_def lookup_set_prop)

lemma stored_updatedAt:
  "get_prop (to_json (merged n d now)) ''updatedAt'' = Inr (JStr (toISOString now))"
proof -
  have "lookup (set_prop ''updatedAt'' (JDate now) (spread d (own_props n))) ''updatedAt'' = JDate now"
    by (simp add: lookup_set_prop)
  then show ?thesis
    by (simp add: merged_def lookup_to_json_props)
qed

lemma stored_untouched:
  assumes "is_json_props ps" and "key \<notin> keys d" and "key \<noteq> ''updatedAt''"
  shows "get_prop (to_json (merged (JObj ps) d now)) key = Inr (lookup ps key)"
proof -
  let ?qs = "set_prop ''updatedAt'' (JDate now) (spread d ps)"
  have l: "lookup ?qs key = lookup ps key"
    using assms(2,3) by (simp add: lookup_set_prop lookup_spread_other keys_def)
  have "key \<in> keys ?qs \<longrightarrow> key \<in> keys ps"
    using assms(2,3) keys_spread[of d ps] by (auto simp: keys_def keys_set_prop)
  then have "key \<in> keys ?qs \<longrightarrow> is_json (lookup ?qs key)"
    using assms(1) l by (simp add: is_json_lookup)
  then have "lookup (to_json_props ?qs) key = lookup ?qs key" by (rule lookup_stored)
  then show ?thesis using l by (simp add: merged_def)
qed

text \<open>
  Claim C3. On a store that holds a collection and accepts the write, with the first
  record of identifier \<open>i\<close> at position \<open>k\<close> and a patch of the
  \<^verbatim>\<open>UpdateNoteDto\<close> shape, \<open>update\<close> returns the record in which the properties of
  the patch have the patch's values, \<^verbatim>\<open>updatedAt\<close> is the current time and every
  other property has the value it had. The data file is written with the same
  collection except at position \<open>k\<close>, which holds the merged record as JSON: the
  length is the same and every other position holds the record it held.
\<close>

theorem update_merges_in_place:
  assumes "holds s ns" and "write_fault s = None" and "dto_shaped d"
    and "k < length ns" and "has_id i (ns ! k)" and "\<forall>j<k. \<not> has_id i (ns ! j)"
  shows "update i d now s =
           (Inr (merged (ns ! k) d now), written (ns[k := to_json (merged (ns ! k) d now)]) s)
       \<and> (\<forall>key. get_prop (merged (ns ! k) d now) key =
            (if key = ''updatedAt'' then Inr (JDate now)
             else if key \<in> keys d then Inr (lookup d key)
             else get_prop (ns ! k) key))
       \<and> (\<forall>key. key \<notin> keys d \<and> key \<noteq> ''updatedAt'' \<longrightarrow>
            get_prop (to_json (merged (ns ! k) d now)) key = get_prop (ns ! k) key)
       \<and> get_prop (to_json (merged (ns ! k) d now)) ''updatedAt'' = Inr (JStr (toISOString now))
       \<and> length (ns[k := to_json (merged (ns ! k) d now)]) = length ns
       \<and> (ns[k := to_json (merged (ns ! k) d now)]) ! k = to_json (merged (ns ! k) d now)
       \<and> (\<forall>j<length ns. j \<noteq> k \<longrightarrow> (ns[k := to_json (merged (ns ! k) d now)]) ! j = ns ! j)"
proof -
  obtain ps where ps: "ns ! k = JObj ps" "is_json_props ps"
    using record_of_collection[OF assms(1,4)] by blast
  have dist: "distinct (map fst d)" using assms(3) by (simp add: dto_shaped_def)
  have u: "update i d now s =
           (Inr (merged (ns ! k) d now), written (ns[k := to_json (merged (ns ! k) d now)]) s)"
    using update_present[OF assms(1,4,5,6), of d now] assms(2) by simp
  have r: "\<forall>key. get_prop (merged (ns ! k) d now) key =
            (if key = ''updatedAt'' then Inr (JDate now)
             else if key \<in> keys d then Inr (lookup d key)
             else get_prop (ns ! k) key)"
    using merged_lookup[OF dist, of ps now] by (simp add: ps)
  have st: "\<forall>key. key \<notin> keys d \<and> key \<noteq> ''updatedAt'' \<longrightarrow>
            get_prop (to_json (merged (ns ! k) d now)) key = get_prop (ns ! k) key"
    using stored_untouched[OF ps(2), of _ d now] by (simp add: ps)
  have pos: "(ns[k := to_json (merged (ns ! k) d now)]) ! k = to_json (merged (ns ! k) d now)"
    using assms(4) by simp
  show ?thesis using u r st stored_updatedAt pos by simp
qed

lemma holds_one_note: "holds one_note [t1_stored]"
  by (simp add: holds_def one_note_def collection_def t1_stored_def)

lemma t1_stored_id: "has_id ''u1'' t1_stored"
  by (simp add: has_id_def t1_stored_def lookup_def)

lemma iso_7: "toISOString 7 = ''1970-01-01T00:00:00.007Z''"
  by (simp add: iso_defs)

theorem update_merges_in_place_witness:
  "holds one_note [t1_stored] \<and> write_fault one_note = None
   \<and> dto_shaped [(''title'', JStr ''Z'')]
   \<and> 0 < length [t1_stored] \<and> has_id ''u1'' ([t1_stored] ! 0)
   \<and> update ''u1'' [(''title'', JStr ''Z'')] 7 one_note =
       (Inr (JObj [(''id'', JStr ''u1''), (''title'', JStr ''Z''), (''content'', JStr ''C1''),
                   (''tags'', JArr [JStr ''a'']),
                   (''createdAt'', JStr ''1970-01-01T00:00:00.000Z''),
                   (''updatedAt'', JDate 7)]),
        written [JObj [(''id'', JStr ''u1''), (''title'', JStr ''Z''), (''content'', JStr ''C1''),
                   (''tags'', JArr [JStr ''a'']),
                   (''createdAt'', JStr ''1970-01-01T00:00:00.000Z''),
                   (''updatedAt'', JStr ''1970-01-01T00:00:00.007Z'')]] one_note)"
proof -
  have w: "write_fault one_note = None" by (simp add: one_note_def)
  have d: "dto_shaped [(''title'', JStr ''Z'')]" by (simp add: dto_shaped_def keys_def)
  have k: "0 < length [t1_stored]" by simp
  have h: "has_id ''u1'' ([t1_stored] ! 0)" using t1_stored_id by simp
  have f: "\<forall>j<0. \<not> has_id ''u1'' ([t1_stored] ! j)" by simp
  have m: "merged t1_stored [(''title'', JStr ''Z'')] 7 =
      JObj [(''id'', JStr ''u1''), (''title'', JStr ''Z''), (''content'', JStr ''C1''),
                   (''tags'', JArr [JStr ''a'']),
                   (''createdAt'', JStr ''1970-01-01T00:00:00.000Z''),
                   (''updatedAt'', JDate 7)]"
    by (simp add: merged_def t1_stored_def)
  show ?thesis
    using update_merges_in_place[OF holds_one_note w d k h f, of 7] holds_one_note w d h
    by (simp add: m iso_7)
qed

text \<open>
  Claim C10. An update with the empty patch is not a no-op: on a store that holds a
  collection and accepts the write, with the first record of identifier \<open>i\<close> at
  position \<open>k\<close>, the record returned has every property of the old one except
  \<^verbatim>\<open>updatedAt\<close>, which is the current time, and the data file is written once more,
  with the whole collection, so the store after the call differs from the store
  before it.
\<close>

theorem empty_patch_still_writes:
  assumes "holds s ns" and "write_fault s = None"
    and "k < length ns" and "has_id i (ns ! k)" and "\<forall>j<k. \<not> has_id i (ns ! j)"
  shows "update i [] now s =
           (Inr (merged (ns ! k) [] now), written (ns[k := to_json (merged (ns ! k) [] now)]) s)
       \<and> (\<forall>key. key \<noteq> ''updatedAt'' \<longrightarrow>
            get_prop (merged (ns ! k) [] now) key = get_prop (ns ! k) key
          \<and> get_prop (to_json (merged (ns ! k) [] now)) key = get_prop (ns ! k) key)
       \<and> get_prop (merged (ns ! k) [] now) ''updatedAt'' = Inr (JDate now)
       \<and> get_prop (to_json (merged (ns ! k) [] now)) ''updatedAt'' = Inr (JStr (toISOString now))
       \<and> writes (snd (update i [] now s)) = Suc (writes s)
       \<and> data_file (snd (update i [] now s)) =
            Some (Json (JArr (ns[k := to_json (merged (ns ! k) [] now)])))
       \<and> snd (update i [] now s) \<noteq> s"
proof -
  obtain ps where ps: "ns ! k = JObj ps" "is_json_props ps"
    using record_of_collection[OF assms(1,3)] by blast
  have u: "update i [] now s =
           (Inr (merged (ns ! k) [] now), written (ns[k := to_json (merged (ns ! k) [] now)]) s)"
    using update_present[OF assms(1,3,4,5), of "[]" now] assms(2) by simp
  have r: "\<forall>key. key \<noteq> ''updatedAt'' \<longrightarrow>
            get_prop (merged (ns ! k) [] now) key = get_prop (ns ! k) key
          \<and> get_prop (to_json (merged (ns ! k) [] now)) key = get_prop (ns ! k) key"
    using merged_lookup_other[of _ "[]" ps now] stored_untouched[OF ps(2), of _ "[]" now]
    by (simp add: ps keys_def)
  have w: "writes (written xs s) = Suc (writes s)" for xs
    by (simp add: written_def)
  have f: "data_file (written xs s) = Some (Json (JArr xs))" for xs
    by (simp add: written_def)
  have "writes (snd (update i [] now s)) \<noteq> writes s" using u w by simp
  then have ne: "snd (update i [] now s) \<noteq> s" by auto
  show ?thesis using u r merged_updatedAt stored_updatedAt w f ne by simp
qed

theorem empty_patch_still_writes_witness:
  "holds one_note [t1_stored] \<and> write_fault one_note = None
   \<and> 0 < length [t1_stored] \<and> has_id ''u1'' ([t1_stored] ! 0)
   \<and> update ''u1'' [] 7 one_note =
       (Inr (JObj [(''id'', JStr ''u1''), (''title'', JStr ''T1''), (''content'', JStr ''C1''),
                   (''tags'', JArr [JStr ''a'']),
                   (''createdAt'', JStr ''1970-01-01T00:00:00.000Z''),
                   (''updatedAt'', JDate 7)]),
        written [JObj [(''id'', JStr ''u1''), (''title'', JStr ''T1''), (''content'', JStr ''C1''),
                   (''tags'', JArr [JStr ''a'']),
                   (''createdAt'', JStr ''1970-01-01T00:00:00.000Z''),
                   (''updatedAt'', JStr ''1970-01-01T00:00:00.007Z'')]] one_note)
   \<and> snd (update ''u1'' [] 7 one_note) \<noteq> one_note"
proof -
  have w: "write_fault one_note = None" by (simp add: one_note_def)
  have k: "0 < length [t1_stored]" by simp
  have h: "has_id ''u1'' ([t1_stored] ! 0)" using t1_stored_id by simp
  have f: "\<forall>j<0. \<not> has_id ''u1'' ([t1_stored] ! j)" by simp
  have m: "merged t1_stored [] 7 =
      JObj [(''id'', JStr ''u1''), (''title'', JStr ''T1''), (''content'', JStr ''C1''),
                   (''tags'', JArr [JStr ''a'']),
                   (''createdAt'', JStr ''1970-01-01T00:00:00.000Z''),
                   (''updatedAt'', JDate 7)]"
    by (simp add: merged_def t1_stored_def)
  note t = empty_patch_still_writes[OF holds_one_note w k h f, of 7]
  from t have u: "update ''u1'' [] 7 one_note =
       (Inr (JObj [(''id'', JStr ''u1''), (''title'', JStr ''T1''), (''content'', JStr ''C1''),
                   (''tags'', JArr [JStr ''a'']),
                   (''createdAt'', JStr ''1970-01-01T00:00:00.000Z''),
                   (''updatedAt'', JDate 7)]),
        written [JObj [(''id'', JStr ''u1''), (''title'', JStr ''T1''), (''content'', JStr ''C1''),
                   (''tags'', JArr [JStr ''a'']),
                   (''createdAt'', JStr ''1970-01-01T00:00:00.000Z''),
                   (''updatedAt'', JStr ''1970-01-01T00:00:00.007Z'')]] one_note)"
    by (simp add: m iso_7)
  from t have ne: "snd (update ''u1'' [] 7 one_note) \<noteq> one_note" by blast
  show ?thesis using holds_one_note w k h f u ne by blast
qed

text \<open>
  Claim C5, as stated, fails: \<open>update\<close> spreads every property of the patch object
  over the record, so a patch that carries an \<^verbatim>\<open>id\<close> and a \<^verbatim>\<open>createdAt\<close> replaces
  both, in the record returned and in the data file.
\<close>

theorem patch_replaces_id_counterexample:
  "holds one_note [t1_stored]
   \<and> get_prop t1_stored ''id'' = Inr (JStr ''u1'')
   \<and> get_prop t1_stored ''createdAt'' = Inr (JStr ''1970-01-01T00:00:00.000Z'')
   \<and> update ''u1'' [(''id'', JStr ''zz''), (''createdAt'', JStr ''never'')] 7 one_note =
       (Inr (JObj [(''id'', JStr ''zz''), (''title'', JStr ''T1''), (''content'', JStr ''C1''),
                   (''tags'', JArr [JStr ''a'']),
                   (''createdAt'', JStr ''never''),
                   (''updatedAt'', JDate 7)]),
        written [JObj [(''id'', JStr ''zz''), (''title'', JStr ''T1''), (''content'', JStr ''C1''),
                   (''tags'', JArr [JStr ''a'']),
                   (''createdAt'', JStr ''never''),
                   (''updatedAt'', JStr ''1970-01-01T00:00:00.007Z'')]] one_note)"
proof -
  have w: "write_fault one_note = None" by (simp add: one_note_def)
  have m: "merged t1_stored [(''id'', JStr ''zz''), (''createdAt'', JStr ''never'')] 7 =
      JObj [(''id'', JStr ''zz''), (''title'', JStr ''T1''), (''content'', JStr ''C1''),
                   (''tags'', JArr [JStr ''a'']),
                   (''createdAt'', JStr ''never''),
                   (''updatedAt'', JDate 7)]"
    by (simp add: merged_def t1_stored_def)
  have u: "update ''u1'' [(''id'', JStr ''zz''), (''createdAt'', JStr ''never'')] 7 one_note =
      (Inr (merged t1_stored [(''id'', JStr ''zz''), (''createdAt'', JStr ''never'')] 7),
       written [to_json (merged t1_stored [(''id'', JStr ''zz''), (''createdAt'', JStr ''never'')] 7)] one_note)"
    using update_present[OF holds_one_note, of 0 "''u1''"] t1_stored_id w by simp
  have g: "get_prop t1_stored ''id'' = Inr (JStr ''u1'')"
    "get_prop t1_stored ''createdAt'' = Inr (JStr ''1970-01-01T00:00:00.000Z'')"
    by (simp_all add: t1_stored_def lookup_def)
  show ?thesis using holds_one_note g u by (simp add: m iso_7)
qed

text \<open>
  Claim C5, amended. For a patch with no \<^verbatim>\<open>id\<close> and no \<^verbatim>\<open>createdAt\<close> entry, as
  every patch of the \<^verbatim>\<open>UpdateNoteDto\<close> shape is, the record \<open>update\<close> returns and
  the record it writes in place of the old one have the old record's \<^verbatim>\<open>id\<close> and
  \<^verbatim>\<open>createdAt\<close>. The protection is the shape of the patch: \<open>update\<close> itself does
  not filter the entries it is given.
\<close>

theorem shaped_patch_keeps_id_and_createdAt:
  assumes "holds s ns" and "write_fault s = None"
    and "k < length ns" and "has_id i (ns ! k)" and "\<forall>j<k. \<not> has_id i (ns ! j)"
    and "''id'' \<notin> keys d" and "''createdAt'' \<notin> keys d"
  shows "update i d now s =
           (Inr (merged (ns ! k) d now), written (ns[k := to_json (merged (ns ! k) d now)]) s)
       \<and> get_prop (merged (ns ! k) d now) ''id'' = get_prop (ns ! k) ''id''
       \<and> get_prop (merged (ns ! k) d now) ''createdAt'' = get_prop (ns ! k) ''createdAt''
       \<and> get_prop (to_json (merged (ns ! k) d now)) ''id'' = get_prop (ns ! k) ''id''
       \<and> get_prop (to_json (merged (ns ! k) d now)) ''createdAt'' = get_prop (ns ! k) ''createdAt''
       \<and> (dto_shaped d \<longrightarrow> ''id'' \<notin> keys d \<and> ''createdAt'' \<notin> keys d)"
proof -
  obtain ps where ps: "ns ! k = JObj ps" "is_json_props ps"
    using record_of_collection[OF assms(1,3)] by blast
  have u: "update i d now s =
           (Inr (merged (ns ! k) d now), written (ns[k := to_json (merged (ns ! k) d now)]) s)"
    using update_present[OF assms(1,3,4,5), of d now] assms(2) by simp
  have a: "get_prop (merged (ns ! k) d now) ''id'' = get_prop (ns ! k) ''id''"
    using merged_lookup_other[OF assms(6), of ps now] by (simp add: ps)
  have b: "get_prop (merged (ns ! k) d now) ''createdAt'' = get_prop (ns ! k) ''createdAt''"
    using merged_lookup_other[OF assms(7), of ps now] by (simp add: ps)
  have c: "get_prop (to_json (merged (ns ! k) d now)) ''id'' = get_prop (ns ! k) ''id''"
    using stored_untouched[OF ps(2) assms(6), of now] by (simp add: ps)
  have e: "get_prop (to_json (merged (ns ! k) d now)) ''createdAt'' = get_prop (ns ! k) ''createdAt''"
    using stored_untouched[OF ps(2) assms(7), of now] by (simp add: ps)
  have f: "dto_shaped d \<longrightarrow> ''id'' \<notin> keys d \<and> ''createdAt'' \<notin> keys d"
    using assms(6,7) by simp
  show ?thesis using u a b c e f by simp
qed

theorem shaped_patch_keeps_id_and_createdAt_witness:
  "holds one_note [t1_stored] \<and> write_fault one_note = None
   \<and> 0 < length [t1_stored] \<and> has_id ''u1'' ([t1_stored] ! 0)
   \<and> ''id'' \<notin> keys [(''content'', JStr ''new'')]
   \<and> ''createdAt'' \<notin> keys [(''content'', JStr ''new'')]
   \<and> dto_shaped [(''content'', JStr ''new'')]
   \<and> get_prop (merged ([t1_stored] ! 0) [(''content'', JStr ''new'')] 7) ''id'' = Inr (JStr ''u1'')
   \<and> get_prop (merged ([t1_stored] ! 0) [(''content'', JStr ''new'')] 7) ''createdAt'' =
        Inr (JStr ''1970-01-01T00:00:00.000Z'')
   \<and> get_prop (to_json (merged ([t1_stored] ! 0) [(''content'', JStr ''new'')] 7)) ''id'' =
        Inr (JStr ''u1'')
   \<and> get_prop (to_json (merged ([t1_stored] ! 0) [(''content'', JStr ''new'')] 7)) ''createdAt'' =
        Inr (JStr ''1970-01-01T00:00:00.000Z'')"
proof -
  have w: "write_fault one_note = None" by (simp add: one_note_def)
  have k: "0 < length [t1_stored]" by simp
  have h: "has_id ''u1'' ([t1_stored] ! 0)" using t1_stored_id by simp
  have f: "\<forall>j<0. \<not> has_id ''u1'' ([t1_stored] ! j)" by simp
  have a: "''id'' \<notin> keys [(''content'', JStr ''new'')]" by (simp add: keys_def)
  have b: "''createdAt'' \<notin> keys [(''content'', JStr ''new'')]" by (simp add: keys_def)
  have d: "dto_shaped [(''content'', JStr ''new'')]" by (simp add: dto_shaped_def keys_def)
  have g: "get_prop ([t1_stored] ! 0) ''id'' = Inr (JStr ''u1'')"
    "get_prop ([t1_stored] ! 0) ''createdAt'' = Inr (JStr ''1970-01-01T00:00:00.000Z'')"
    by (simp_all add: t1_stored_def lookup_def)
  note t = shaped_patch_keeps_id_and_createdAt[OF holds_one_note w k h f a b, of 7]
  have r: "get_prop (merged ([t1_stored] ! 0) [(''content'', JStr ''new'')] 7) ''id'' = Inr (JStr ''u1'')"
    "get_prop (merged ([t1_stored] ! 0) [(''content'', JStr ''new'')] 7) ''createdAt'' =
        Inr (JStr ''1970-01-01T00:00:00.000Z'')"
    "get_prop (to_json (merged ([t1_stored] ! 0) [(''content'', JStr ''new'')] 7)) ''id'' =
        Inr (JStr ''u1'')"
    "get_prop (to_json (merged ([t1_stored] ! 0) [(''content'', JStr ''new'')] 7)) ''createdAt'' =
        Inr (JStr ''1970-01-01T00:00:00.000Z'')"
    using t g by metis+
  show ?thesis using holds_one_note w k h f a b d r by blast
qed

subsection \<open>Removing a note\<close>

lemma splice1_Cons_0: "splice1 0 (x # xs) = xs"
  by (simp add: splice1_def)

lemma splice1_Cons_Suc: "splice1 (Suc k) (x # xs) = x # splice1 k xs"
  by (simp add: splice1_def)

lemma splice1_only:
  "length (filter P ns) = 1 \<Longrightarrow> k < length ns \<Longrightarrow> P (ns ! k) \<Longrightarrow>
   splice1 k ns = filter (\<lambda>n. \<not> P n) ns"
proof (induction ns arbitrary: k)
  case Nil
  then show ?case by simp
next
  case (Cons n ns)
  show ?case
  proof (cases k)
    case 0
    with Cons.prems have "P n" by simp
    with Cons.prems(1) have "filter P ns = []" by simp
    then have "filter (\<lambda>n. \<not> P n) ns = ns"
      by (simp add: filter_empty_conv)
    then show ?thesis using 0 \<open>P n\<close> by (simp add: splice1_Cons_0)
  next
    case (Suc k')
    with Cons.prems have k': "k' < length ns" "P (ns ! k')" by simp_all
    then have "ns ! k' \<in> set (filter P ns)" by simp
    then have "filter P ns \<noteq> []" by (auto simp: filter_empty_conv)
    then have nP: "\<not> P n" using Cons.prems(1) by (auto split: if_splits)
    then have "length (filter P ns) = 1" using Cons.prems(1) by simp
    then have "splice1 k' ns = filter (\<lambda>n. \<not> P n) ns" using k' by (rule Cons.IH)
    then show ?thesis using Suc nP by (simp add: splice1_Cons_Suc)
  qed
qed

text \<open>
  Claim C6. On a store that holds a collection with exactly one record of identifier
  \<open>i\<close> and accepts the write, \<open>remove\<close> succeeds and writes the collection without
  that record: the records of any other identifier, unchanged and in their order.
  The collection written is one shorter and no record in it has the identifier.
\<close>

theorem remove_deletes_the_record:
  assumes "holds s ns" and "write_fault s = None"
    and "length (filter (has_id i) ns) = 1"
  shows "remove i s = (Inr JUndefined, written (filter (\<lambda>n. \<not> has_id i n) ns) s)
       \<and> Suc (length (filter (\<lambda>n. \<not> has_id i n) ns)) = length ns
       \<and> \<not> list_ex (has_id i) (filter (\<lambda>n. \<not> has_id i n) ns)
       \<and> holds (written (filter (\<lambda>n. \<not> has_id i n) ns) s) (filter (\<lambda>n. \<not> has_id i n) ns)"
proof -
  have "filter (has_id i) ns \<noteq> []" using assms(3) by auto
  then have "list_ex (has_id i) ns" by (auto simp: list_ex_iff filter_empty_conv)
  then obtain k where k: "k < length ns" "has_id i (ns ! k)" "\<forall>j<k. \<not> has_id i (ns ! j)"
    using first_position by blast
  have sp: "splice1 k ns = filter (\<lambda>n. \<not> has_id i n) ns"
    using assms(3) k(1,2) by (rule splice1_only)
  have r: "remove i s = (Inr JUndefined, written (filter (\<lambda>n. \<not> has_id i n) ns) s)"
    using remove_present[OF assms(1) k] assms(2) sp by simp
  have "length (filter (has_id i) ns) + length (filter (\<lambda>n. \<not> has_id i n) ns) = length ns"
    by (rule sum_length_filter_compl)
  then have len: "Suc (length (filter (\<lambda>n. \<not> has_id i n) ns)) = length ns"
    using assms(3) by simp
  have none: "\<not> list_ex (has_id i) (filter (\<lambda>n. \<not> has_id i n) ns)"
    by (simp add: list_ex_iff)
  have "collection (filter (\<lambda>n. \<not> has_id i n) ns)"
    using assms(1) by (auto simp: holds_def collection_def list_all_iff is_json_elems_iff)
  then have h: "holds (written (filter (\<lambda>n. \<not> has_id i n) ns) s) (filter (\<lambda>n. \<not> has_id i n) ns)"
    using assms(1) by (simp add: holds_def written_def)
  show ?thesis using r len none h by simp
qed

theorem remove_deletes_the_record_witness:
  "holds two_notes [hook_note, unrelated_note] \<and> write_fault two_notes = None
   \<and> length (filter (has_id ''n1'') [hook_note, unrelated_note]) = 1
   \<and> remove ''n1'' two_notes = (Inr JUndefined, written [unrelated_note] two_notes)"
proof -
  have w: "write_fault two_notes = None" by (simp add: two_notes_def)
  have a: "has_id ''n1'' hook_note" "\<not> has_id ''n1'' unrelated_note"
    by (simp_all add: has_id_def hook_note_def unrelated_note_def lookup_def)
  then have one: "length (filter (has_id ''n1'') [hook_note, unrelated_note]) = 1" by simp
  have "remove ''n1'' two_notes = (Inr JUndefined, written [unrelated_note] two_notes)"
    using remove_deletes_the_record[OF holds_two_notes w one] a by simp
  then show ?thesis using holds_two_notes w one by blast
qed

subsection \<open>Reading a created note back\<close>

lemma find_last:
  "\<not> list_ex P xs \<Longrightarrow> P x \<Longrightarrow> List.find P (xs @ [x]) = Some x"
  by (induction xs) auto

lemma stored_note_id:
  assumes "''id'' \<notin> keys d"
  shows "has_id uuid (to_json (new_note d uuid now))"
proof -
  let ?ps = "set_prop ''updatedAt'' (JDate now)
          (set_prop ''createdAt'' (JDate now)
          (set_prop ''tags''
             (if truthy (lookup d ''tags'') then lookup d ''tags'' else JArr [])
          (spread d [(''id'', JStr uuid)])))"
  have "lookup ?ps ''id'' = JStr uuid"
    using new_note_id[OF assms, of uuid now] by (simp add: new_note_def)
  then have "lookup (to_json_props ?ps) ''id'' = JStr uuid"
    by (simp add: lookup_to_json_props)
  then show ?thesis by (simp add: has_id_def new_note_def)
qed

lemma stored_note_stamps:
  "get_prop (to_json (new_note d uuid now)) ''createdAt'' = Inr (JStr (toISOString now))"
  "get_prop (to_json (new_note d uuid now)) ''updatedAt'' = Inr (JStr (toISOString now))"
proof -
  let ?ps = "set_prop ''updatedAt'' (JDate now)
          (set_prop ''createdAt'' (JDate now)
          (set_prop ''tags''
             (if truthy (lookup d ''tags'') then lookup d ''tags'' else JArr [])
          (spread d [(''id'', JStr uuid)])))"
  have "lookup ?ps ''createdAt'' = JDate now" "lookup ?ps ''updatedAt'' = JDate now"
    by (simp_all add: lookup_set_prop)
  then have "lookup (to_json_props ?ps) ''createdAt'' = JStr (toISOString now)"
    "lookup (to_json_props ?ps) ''updatedAt'' = JStr (toISOString now)"
    by (simp_all add: lookup_to_json_props)
  then show "get_prop (to_json (new_note d uuid now)) ''createdAt'' = Inr (JStr (toISOString now))"
    "get_prop (to_json (new_note d uuid now)) ''updatedAt'' = Inr (JStr (toISOString now))"
    by (simp_all add: new_note_def)
qed

lemma truthy_defined: "truthy v \<Longrightarrow> v \<noteq> JUndefined"
  by auto

lemma lookup_defined_key: "lookup ps k \<noteq> JUndefined \<Longrightarrow> k \<in> keys ps"
  using lookup_absent_keys by blast

lemma stored_note_fields:
  assumes "distinct (map fst d)" and "is_json_props d"
    and "key \<noteq> ''createdAt''" and "key \<noteq> ''updatedAt''"
  shows "get_prop (to_json (new_note d uuid now)) key = get_prop (new_note d uuid now) key"
proof -
  let ?T = "if truthy (lookup d ''tags'') then lookup d ''tags'' else JArr []"
  let ?base = "spread d [(''id'', JStr uuid)]"
  let ?ps = "set_prop ''updatedAt'' (JDate now)
          (set_prop ''createdAt'' (JDate now) (set_prop ''tags'' ?T ?base))"
  have T: "is_json ?T"
  proof (cases "truthy (lookup d ''tags'')")
    case True
    then have "''tags'' \<in> keys d" using truthy_defined lookup_defined_key by blast
    then show ?thesis using True assms(2) by (simp add: is_json_lookup)
  next
    case False
    then show ?thesis by simp
  qed
  have kb: "keys ?base = insert ''id'' (keys d)"
    by (simp add: keys_spread) (simp add: keys_def)
  have base: "key \<in> keys ?base \<longrightarrow> is_json (lookup ?base key)"
  proof (cases "key \<in> keys d")
    case True
    then have "lookup ?base key = lookup d key"
      using assms(1) by (simp add: lookup_spread keys_def)
    then show ?thesis using True assms(2) by (simp add: is_json_lookup)
  next
    case False
    then have "lookup ?base key = lookup [(''id'', JStr uuid)] key"
      by (simp add: lookup_spread_other keys_def)
    then show ?thesis using False kb by (auto simp: lookup_Cons)
  qed
  have l: "lookup ?ps key = (if key = ''tags'' then ?T else lookup ?base key)"
    using assms(3,4) by (simp add: lookup_set_prop)
  have k: "key \<in> keys ?ps \<longleftrightarrow> key = ''tags'' \<or> key \<in> keys ?base"
    using assms(3,4) by (auto simp: keys_def keys_set_prop)
  have "key \<in> keys ?ps \<longrightarrow> is_json (lookup ?ps key)"
    using T base l k by auto
  then have "lookup (to_json_props ?ps) key = lookup ?ps key" by (rule lookup_stored)
  then show ?thesis by (simp add: new_note_def)
qed

lemma to_json_twice: "v \<noteq> JUndefined \<Longrightarrow> to_json (to_json v) = to_json v"
  by (simp add: is_json_to_json to_json_ident)

lemma create_result_holds:
  assumes "holds s ns" and "write_fault s = None"
  shows "holds (snd (create d uuid now s)) (ns @ [to_json (new_note d uuid now)])"
proof -
  have "is_record (to_json (new_note d uuid now))" by (simp add: new_note_def)
  moreover have "is_json (to_json (new_note d uuid now))"
    by (simp add: is_json_to_json new_note_not_undefined)
  ultimately have "collection (ns @ [to_json (new_note d uuid now)])"
    using assms(1) by (simp add: holds_def collection_def is_json_elems_iff)
  then show ?thesis
    using assms(1) create_holds[OF assms, of d uuid now] by (simp add: holds_def written_def)
qed

lemma restart_keeps_file: "data_file s \<noteq> None \<Longrightarrow> ensureDataFileExists s = (Inr (), s)"
  by (auto simp: ensureDataFileExists_def)

text \<open>
  Claim C2, as stated, fails: the record \<open>create\<close> returns carries its timestamps
  as \<^verbatim>\<open>Date\<close> objects, the record \<open>findOne\<close> reads back carries them as the ISO
  strings \<^verbatim>\<open>JSON.stringify\<close> wrote, and nothing turns them into dates again.
\<close>

theorem round_trip_counterexample:
  "create t1_dto ''u1'' 0 empty_store =
     (Inr (JObj [(''id'', JStr ''u1''), (''title'', JStr ''T1''), (''content'', JStr ''C1''),
                 (''tags'', JArr [JStr ''a'']), (''createdAt'', JDate 0), (''updatedAt'', JDate 0)]),
      one_note)
   \<and> findOne ''u1'' one_note =
     (Inr (JObj [(''id'', JStr ''u1''), (''title'', JStr ''T1''), (''content'', JStr ''C1''),
                 (''tags'', JArr [JStr ''a'']),
                 (''createdAt'', JStr ''1970-01-01T00:00:00.000Z''),
                 (''updatedAt'', JStr ''1970-01-01T00:00:00.000Z'')]),
      one_note)
   \<and> fst (findOne ''u1'' (snd (create t1_dto ''u1'' 0 empty_store)))
       \<noteq> fst (create t1_dto ''u1'' 0 empty_store)"
proof -
  have h: "holds empty_store []"
    by (simp add: holds_def empty_store_def collection_def)
  have w: "write_fault empty_store = None" by (simp add: empty_store_def)
  have n: "new_note t1_dto ''u1'' 0 =
      JObj [(''id'', JStr ''u1''), (''title'', JStr ''T1''), (''content'', JStr ''C1''),
            (''tags'', JArr [JStr ''a'']), (''createdAt'', JDate 0), (''updatedAt'', JDate 0)]"
    by (simp add: new_note_def t1_dto_def lookup_def)
  have iso: "toISOString 0 = ''1970-01-01T00:00:00.000Z''"
    by (simp add: iso_defs)
  have st: "written [t1_stored] empty_store = one_note"
    by (simp add: written_def empty_store_def one_note_def)
  have c: "create t1_dto ''u1'' 0 empty_store =
     (Inr (JObj [(''id'', JStr ''u1''), (''title'', JStr ''T1''), (''content'', JStr ''C1''),
                 (''tags'', JArr [JStr ''a'']), (''createdAt'', JDate 0), (''updatedAt'', JDate 0)]),
      one_note)"
    using create_holds[OF h w, of t1_dto "''u1''" 0] st
    by (simp add: n iso t1_stored_def)
  have "List.find (has_id ''u1'') [t1_stored] = Some t1_stored"
    using t1_stored_id by simp
  then have f: "findOne ''u1'' one_note = (Inr t1_stored, one_note)"
    using findOne_holds[OF holds_one_note, of "''u1''"] by simp
  show ?thesis using c f by (simp add: t1_stored_def)
qed

text \<open>
  Claim C2, amended. On a store that holds a collection with no record of the
  identifier generated, for an input of the \<^verbatim>\<open>CreateNoteDto\<close> shape with JSON
  values, \<open>findOne\<close> of that identifier, right after \<open>create\<close> and again after a
  restart of the repository, returns the JSON form of the created record: every
  property but the two timestamps is the same, and the timestamps are the ISO strings
  of the creation time in place of the \<^verbatim>\<open>Date\<close> objects \<open>create\<close> returned.
  Serialising either record gives the same JSON.
\<close>

theorem created_note_reads_back_as_json:
  assumes "holds s ns" and "write_fault s = None"
    and "dto_shaped d" and "is_json_props d"
    and "\<not> list_ex (has_id uuid) ns"
  shows "findOne uuid (snd (create d uuid now s)) =
           (Inr (to_json (new_note d uuid now)), snd (create d uuid now s))
       \<and> ensureDataFileExists (snd (create d uuid now s)) = (Inr (), snd (create d uuid now s))
       \<and> findOne uuid (snd (ensureDataFileExists (snd (create d uuid now s)))) =
           (Inr (to_json (new_note d uuid now)), snd (create d uuid now s))
       \<and> fst (create d uuid now s) = Inr (new_note d uuid now)
       \<and> (\<forall>key. key \<noteq> ''createdAt'' \<and> key \<noteq> ''updatedAt'' \<longrightarrow>
            get_prop (to_json (new_note d uuid now)) key = get_prop (new_note d uuid now) key)
       \<and> get_prop (new_note d uuid now) ''createdAt'' = Inr (JDate now)
       \<and> get_prop (new_note d uuid now) ''updatedAt'' = Inr (JDate now)
       \<and> get_prop (to_json (new_note d uuid now)) ''createdAt'' = Inr (JStr (toISOString now))
       \<and> get_prop (to_json (new_note d uuid now)) ''updatedAt'' = Inr (JStr (toISOString now))
       \<and> to_json (to_json (new_note d uuid now)) = to_json (new_note d uuid now)"
proof -
  let ?s1 = "snd (create d uuid now s)"
  let ?n = "to_json (new_note d uuid now)"
  have dist: "distinct (map fst d)" and sub: "keys d \<subseteq> {''title'', ''content'', ''tags''}"
    using assms(3) by (simp_all add: dto_shaped_def)
  have noid: "''id'' \<notin> keys d" using sub by auto
  have h1: "holds ?s1 (ns @ [?n])" using assms(1,2) by (rule create_result_holds)
  have "List.find (has_id uuid) (ns @ [?n]) = Some ?n"
    using assms(5) stored_note_id[OF noid] by (rule find_last)
  then have f: "findOne uuid ?s1 = (Inr ?n, ?s1)"
    using findOne_holds[OF h1, of uuid] by simp
  have "data_file ?s1 \<noteq> None" using h1 by (simp add: holds_def)
  then have e: "ensureDataFileExists ?s1 = (Inr (), ?s1)" by (rule restart_keeps_file)
  have c: "fst (create d uuid now s) = Inr (new_note d uuid now)"
    using create_holds[OF assms(1,2), of d uuid now] by simp
  have k: "\<forall>key. key \<noteq> ''createdAt'' \<and> key \<noteq> ''updatedAt'' \<longrightarrow>
            get_prop ?n key = get_prop (new_note d uuid now) key"
    using stored_note_fields[OF dist assms(4)] by blast
  have t: "to_json ?n = ?n"
    using new_note_not_undefined by (rule to_json_twice)
  show ?thesis
    using f e c k t new_note_stamps stored_note_stamps by simp
qed

theorem created_note_reads_back_as_json_witness:
  "holds empty_store [] \<and> write_fault empty_store = None
   \<and> dto_shaped t1_dto \<and> is_json_props t1_dto \<and> \<not> list_ex (has_id ''u1'') []
   \<and> findOne ''u1'' (snd (create t1_dto ''u1'' 0 empty_store)) =
       (Inr t1_stored, snd (create t1_dto ''u1'' 0 empty_store))
   \<and> findOne ''u1'' (snd (ensureDataFileExists (snd (create t1_dto ''u1'' 0 empty_store)))) =
       (Inr t1_stored, snd (create t1_dto ''u1'' 0 empty_store))"
proof -
  have h: "holds empty_store []"
    by (simp add: holds_def empty_store_def collection_def)
  have w: "write_fault empty_store = None" by (simp add: empty_store_def)
  have d: "dto_shaped t1_dto" by (simp add: dto_shaped_def t1_dto_def keys_def)
  have j: "is_json_props t1_dto" by (simp add: t1_dto_def)
  have a: "\<not> list_ex (has_id ''u1'') []" by simp
  have n: "new_note t1_dto ''u1'' 0 =
      JObj [(''id'', JStr ''u1''), (''title'', JStr ''T1''), (''content'', JStr ''C1''),
            (''tags'', JArr [JStr ''a'']), (''createdAt'', JDate 0), (''updatedAt'', JDate 0)]"
    by (simp add: new_note_def t1_dto_def lookup_def)
  have iso: "toISOString 0 = ''1970-01-01T00:00:00.000Z''"
    by (simp add: iso_defs)
  have tj: "to_json (new_note t1_dto ''u1'' 0) = t1_stored"
    by (simp add: n iso t1_stored_def)
  note t = created_note_reads_back_as_json[OF h w d j a, of 0]
  have r: "findOne ''u1'' (snd (create t1_dto ''u1'' 0 empty_store)) =
       (Inr t1_stored, snd (create t1_dto ''u1'' 0 empty_store))"
    "findOne ''u1'' (snd (ensureDataFileExists (snd (create t1_dto ''u1'' 0 empty_store)))) =
       (Inr t1_stored, snd (create t1_dto ''u1'' 0 empty_store))"
    using t tj by simp_all
  show ?thesis using h w d j a r by blast
qed

subsection \<open>Storage errors, and listing\<close>

lemma readNotes_cases:
  "readNotes s =
     (case read_fault s of
        Some c \<Rightarrow> Inl (FsError c)
      | None \<Rightarrow>
          (case data_file s of
             None \<Rightarrow> Inl (FsError ''ENOENT'')
           | Some Malformed \<Rightarrow> Inl SyntaxError
           | Some (Json v) \<Rightarrow> Inr v))"
  by (simp add: readNotes_def readFile_def JSON_parse_def split: option.splits file_text.splits)

text \<open>
  Claim C8, as stated, fails: a data file whose text is well-formed JSON of another
  shape than an array of notes, here the object \<^verbatim>\<open>{}\<close>, is read without any error.
  \<open>readNotes\<close> returns the object, \<open>findAll\<close> hands it to its caller as the
  collection, and the other operations end in the TypeError of calling an array
  method on it.
\<close>

theorem misshapen_file_is_read_counterexample:
  "data_file misshapen = Some (Json (JObj []))
   \<and> \<not> is_notes (JObj [])
   \<and> readNotes misshapen = Inr (JObj [])
   \<and> findAll misshapen = (Inr (JObj []), misshapen)
   \<and> findOne ''u1'' misshapen = (Inl TypeError, misshapen)"
  by (simp add: misshapen_def readNotes_cases findAll_def findOne_def)

text \<open>
  Claim C8, amended. \<open>readNotes\<close> fails with the platform's file error when the
  data file cannot be read or does not exist, and with the parser's SyntaxError when
  its text is not well-formed JSON; a well-formed text is returned as the value it
  denotes, whatever its shape. Every operation that gets an error from \<open>readNotes\<close>
  ends with that very error and leaves the store as it was; a write the platform
  refuses ends \<open>writeNotes\<close>, and \<open>create\<close> with it, with the platform's error;
  and starting the repository on an existing file, readable or not, leaves it as it
  is.
\<close>

theorem read_errors_reach_the_caller:
  "(read_fault s = Some c \<longrightarrow> readNotes s = Inl (FsError c))
   \<and> (read_fault s = None \<and> data_file s = None \<longrightarrow> readNotes s = Inl (FsError ''ENOENT''))
   \<and> (read_fault s = None \<and> data_file s = Some Malformed \<longrightarrow> readNotes s = Inl SyntaxError)
   \<and> (read_fault s = None \<and> data_file s = Some (Json v) \<longrightarrow> readNotes s = Inr v)
   \<and> (readNotes s = Inl e \<longrightarrow>
        create d uuid now s = (Inl e, s)
      \<and> findAll s = (Inl e, s)
      \<and> findOne i s = (Inl e, s)
      \<and> update i d now s = (Inl e, s)
      \<and> remove i s = (Inl e, s))
   \<and> (write_fault s = Some c \<longrightarrow> writeNotes (JArr xs) s = (Inl (FsError c), s))
   \<and> (readNotes s = Inr (JArr xs) \<and> write_fault s = Some c \<longrightarrow>
        create d uuid now s = (Inl (FsError c), s))
   \<and> (data_file s \<noteq> None \<longrightarrow> ensureDataFileExists s = (Inr (), s))"
  by (simp add: readNotes_cases create_def findAll_def findOne_def update_def remove_def
      restart_keeps_file writeNotes_cases)

theorem read_errors_reach_the_caller_witness:
  "read_fault garbled = None \<and> data_file garbled = Some Malformed
   \<and> readNotes garbled = Inl SyntaxError
   \<and> create t1_dto ''u1'' 0 garbled = (Inl SyntaxError, garbled)
   \<and> findAll garbled = (Inl SyntaxError, garbled)
   \<and> findOne ''u1'' garbled = (Inl SyntaxError, garbled)
   \<and> update ''u1'' t1_dto 0 garbled = (Inl SyntaxError, garbled)
   \<and> remove ''u1'' garbled = (Inl SyntaxError, garbled)
   \<and> ensureDataFileExists garbled = (Inr (), garbled)
   \<and> read_fault (garbled\<lparr>read_fault := Some ''EACCES''\<rparr>) = Some ''EACCES''
   \<and> readNotes (garbled\<lparr>read_fault := Some ''EACCES''\<rparr>) = Inl (FsError ''EACCES'')
   \<and> read_fault (garbled\<lparr>data_file := None\<rparr>) = None
   \<and> data_file (garbled\<lparr>data_file := None\<rparr>) = None
   \<and> readNotes (garbled\<lparr>data_file := None\<rparr>) = Inl (FsError ''ENOENT'')
   \<and> read_fault misshapen = None \<and> data_file misshapen = Some (Json (JObj []))
   \<and> readNotes misshapen = Inr (JObj [])"
proof -
  have g: "read_fault garbled = None" "data_file garbled = Some Malformed"
    by (simp_all add: garbled_def)
  note t = read_errors_reach_the_caller[of garbled _ _ SyntaxError t1_dto "''u1''" 0 "''u1''" "[]"]
  have r: "readNotes garbled = Inl SyntaxError" using t g by blast
  have ops: "create t1_dto ''u1'' 0 garbled = (Inl SyntaxError, garbled)"
    "findAll garbled = (Inl SyntaxError, garbled)"
    "findOne ''u1'' garbled = (Inl SyntaxError, garbled)"
    "update ''u1'' t1_dto 0 garbled = (Inl SyntaxError, garbled)"
    "remove ''u1'' garbled = (Inl SyntaxError, garbled)"
    "ensureDataFileExists garbled = (Inr (), garbled)"
    using t r g by simp_all
  have a: "read_fault (garbled\<lparr>read_fault := Some ''EACCES''\<rparr>) = Some ''EACCES''" by simp
  have a': "readNotes (garbled\<lparr>read_fault := Some ''EACCES''\<rparr>) = Inl (FsError ''EACCES'')"
    using read_errors_reach_the_caller[of "garbled\<lparr>read_fault := Some ''EACCES''\<rparr>" "''EACCES''"] a
    by blast
  have b: "read_fault (garbled\<lparr>data_file := None\<rparr>) = None"
    "data_file (garbled\<lparr>data_file := None\<rparr>) = None"
    by (simp_all add: garbled_def)
  have b': "readNotes (garbled\<lparr>data_file := None\<rparr>) = Inl (FsError ''ENOENT'')"
    using read_errors_reach_the_caller[of "garbled\<lparr>data_file := None\<rparr>"] b by blast
  have m: "read_fault misshapen = None" "data_file misshapen = Some (Json (JObj []))"
    by (simp_all add: misshapen_def)
  have m': "readNotes misshapen = Inr (JObj [])"
    using read_errors_reach_the_caller[of misshapen _ "JObj []" _ _ _ _ _ "[]"] m by blast
  show ?thesis using g r ops a a' b b' m m' by blast
qed

text \<open>
  Claim C1, as stated, fails: \<open>findAll\<close> takes no search term and the controller's
  \<open>getAllNotes\<close> passes none, so the list operation returns both sample records
  where the search of the specification for \<^verbatim>\<open>react\<close> keeps the first only.
\<close>

theorem list_ignores_term_counterexample:
  "getAllNotes two_notes = (Inr (JArr [hook_note, unrelated_note]), two_notes)
   \<and> findAll two_notes = (Inr (JArr [hook_note, unrelated_note]), two_notes)
   \<and> spec_findAll (Some ''react'') [hook_note, unrelated_note] = [hook_note]
   \<and> fst (findAll two_notes) \<noteq> Inr (JArr (spec_findAll (Some ''react'') [hook_note, unrelated_note]))"
proof -
  have a: "findAll two_notes = (Inr (JArr [hook_note, unrelated_note]), two_notes)"
    by (simp add: findAll_def readNotes_cases two_notes_def)
  have m: "spec_matches ''react'' hook_note" "\<not> spec_matches ''react'' unrelated_note"
    by (simp_all add: hook_note_def unrelated_note_def lookup_def lower_char_def)
  then have b: "spec_findAll (Some ''react'') [hook_note, unrelated_note] = [hook_note]"
    by (simp add: spec_findAll_def)
  show ?thesis using a b by (simp add: getAllNotes_def)
qed

text \<open>
  Claim C1, amended. The list operation has no search term: on every store,
  \<open>findAll\<close>, and \<open>getAllNotes\<close> with it, returns what \<open>readNotes\<close> returns and
  leaves the store as it is. For a stored collection that is the whole collection
  in its order, which is what the search of the specification gives for an absent
  or empty term.
\<close>

theorem list_returns_whole_collection:
  "findAll s = (readNotes s, s)
   \<and> getAllNotes s = (readNotes s, s)
   \<and> (holds s ns \<longrightarrow>
        findAll s = (Inr (JArr ns), s)
      \<and> fst (findAll s) = Inr (JArr (spec_findAll None ns))
      \<and> fst (findAll s) = Inr (JArr (spec_findAll (Some []) ns)))"
  by (simp add: findAll_def getAllNotes_def readNotes_holds spec_findAll_def)

theorem list_returns_whole_collection_witness:
  "holds two_notes [hook_note, unrelated_note]
   \<and> findAll two_notes = (Inr (JArr [hook_note, unrelated_note]), two_notes)
   \<and> fst (findAll two_notes) = Inr (JArr (spec_findAll None [hook_note, unrelated_note]))"
  using list_returns_whole_collection[of two_notes "[hook_note, unrelated_note]"] holds_two_notes
  by blast

subsection \<open>The identifier of a created note\<close>










subsection \<open>The ISO text determines the time value\<close>

lemma digit_eq: "(digit a = digit b) = (a mod 10 = b mod 10)"
proof -
  have "distinct ''0123456789''" by simp
  moreover have "a mod 10 < length ''0123456789''" "b mod 10 < length ''0123456789''" by simp_all
  ultimately show ?thesis unfolding digit_def by (rule nth_eq_iff_index_eq)
qed

lemma digit_no_sign: "digit n \<noteq> CHR ''-''" "digit n \<noteq> CHR ''+''"
proof -
  have "n mod 10 < length ''0123456789''" by simp
  then have "digit n \<in> set ''0123456789''" unfolding digit_def by (rule nth_mem)
  then show "digit n \<noteq> CHR ''-''" "digit n \<noteq> CHR ''+''" by auto
qed

lemma same_div_mod: "(x::nat) div n = y div n \<Longrightarrow> x mod n = y mod n \<Longrightarrow> x = y"
  by (metis div_mult_mod_eq)

lemma pad2_inj:
  assumes "pad2 a = pad2 b" and "a < 100" and "b < 100"
  shows "a = b"
proof -
  from assms(1) have h: "(a div 10) mod 10 = (b div 10) mod 10" and l: "a mod 10 = b mod 10"
    by (simp_all add: pad2_def digit_eq)
  have "a div 10 < 10" "b div 10 < 10" using assms(2,3) by simp_all
  then have "a div 10 = b div 10" using h by simp
  then show ?thesis using l by (rule same_div_mod)
qed

lemma pad3_inj:
  assumes "pad3 a = pad3 b" and "a < 1000" and "b < 1000"
  shows "a = b"
proof -
  from assms(1) have d2: "(a div 100) mod 10 = (b div 100) mod 10"
    and d1: "(a div 10) mod 10 = (b div 10) mod 10" and d0: "a mod 10 = b mod 10"
    by (simp_all add: pad3_def digit_eq)
  have "a div 100 < 10" "b div 100 < 10" using assms(2,3) by simp_all
  then have "a div 100 = b div 100" using d2 by simp
  then have "(a div 10) div 10 = (b div 10) div 10" by (simp flip: div_mult2_eq)
  then have "a div 10 = b div 10" using d1 by (rule same_div_mod)
  then show ?thesis using d0 by (rule same_div_mod)
qed

lemma pad4_inj:
  assumes "pad4 a = pad4 b" and "a < 10000" and "b < 10000"
  shows "a = b"
proof -
  from assms(1) have d3: "(a div 1000) mod 10 = (b div 1000) mod 10"
    and d2: "(a div 100) mod 10 = (b div 100) mod 10"
    and d1: "(a div 10) mod 10 = (b div 10) mod 10" and d0: "a mod 10 = b mod 10"
    by (simp_all add: pad4_def digit_eq)
  have "a div 1000 < 10" "b div 1000 < 10" using assms(2,3) by simp_all
  then have "a div 1000 = b div 1000" using d3 by simp
  then have "(a div 100) div 10 = (b div 100) div 10" by (simp flip: div_mult2_eq)
  then have "a div 100 = b div 100" using d2 by (rule same_div_mod)
  then have "(a div 10) div 10 = (b div 10) div 10" by (simp flip: div_mult2_eq)
  then have "a div 10 = b div 10" using d1 by (rule same_div_mod)
  then show ?thesis using d0 by (rule same_div_mod)
qed

lemma pad6_inj:
  assumes "pad6 a = pad6 b" and "a < 1000000" and "b < 1000000"
  shows "a = b"
proof -
  from assms(1) have d5: "(a div 100000) mod 10 = (b div 100000) mod 10"
    and d4: "(a div 10000) mod 10 = (b div 10000) mod 10"
    and d3: "(a div 1000) mod 10 = (b div 1000) mod 10"
    and d2: "(a div 100) mod 10 = (b div 100) mod 10"
    and d1: "(a div 10) mod 10 = (b div 10) mod 10" and d0: "a mod 10 = b mod 10"
    by (simp_all add: pad6_def digit_eq)
  have "a div 100000 < 10" "b div 100000 < 10" using assms(2,3) by simp_all
  then have "a div 100000 = b div 100000" using d5 by simp
  then have "(a div 10000) div 10 = (b div 10000) div 10" by (simp flip: div_mult2_eq)
  then have "a div 10000 = b div 10000" using d4 by (rule same_div_mod)
  then have "(a div 1000) div 10 = (b div 1000) div 10" by (simp flip: div_mult2_eq)
  then have "a div 1000 = b div 1000" using d3 by (rule same_div_mod)
  then have "(a div 100) div 10 = (b div 100) div 10" by (simp flip: div_mult2_eq)
  then have "a div 100 = b div 100" using d2 by (rule same_div_mod)
  then have "(a div 10) div 10 = (b div 10) div 10" by (simp flip: div_mult2_eq)
  then have "a div 10 = b div 10" using d1 by (rule same_div_mod)
  then show ?thesis using d0 by (rule same_div_mod)
qed

lemma time_text_inj:
  assumes "time_text a = time_text b" and "a < 86400000" and "b < 86400000"
  shows "a = b"
proof -
  have len: "length (pad2 x) = 2" "length (pad3 x) = 3" for x
    by (simp_all add: pad2_def pad3_def)
  from assms(1) have p: "pad2 (a div 3600000) = pad2 (b div 3600000)"
    "pad2 (a div 60000 mod 60) = pad2 (b div 60000 mod 60)"
    "pad2 (a div 1000 mod 60) = pad2 (b div 1000 mod 60)"
    "pad3 (a mod 1000) = pad3 (b mod 1000)"
    by (simp_all add: time_text_def len)
  have "a div 3600000 < 100" "b div 3600000 < 100" using assms(2,3) by simp_all
  then have h: "a div 3600000 = b div 3600000" using p(1) pad2_inj by blast
  have m: "a div 60000 mod 60 = b div 60000 mod 60"
    using p(2) by (rule pad2_inj) simp_all
  have s: "a div 1000 mod 60 = b div 1000 mod 60"
    using p(3) by (rule pad2_inj) simp_all
  have f: "a mod 1000 = b mod 1000"
    using p(4) by (rule pad3_inj) simp_all
  from h have "(a div 60000) div 60 = (b div 60000) div 60" by (simp flip: div_mult2_eq)
  then have "a div 60000 = b div 60000" using m by (rule same_div_mod)
  then have "(a div 1000) div 60 = (b div 1000) div 60" by (simp flip: div_mult2_eq)
  then have "a div 1000 = b div 1000" using s by (rule same_div_mod)
  then show ?thesis using f by (rule same_div_mod)
qed

lemma div_by_parts: "(0::int) \<le> r \<Longrightarrow> r < b \<Longrightarrow> (b * q + r) div b = q"
proof -
  assume a: "0 \<le> r" "r < b"
  then have "b \<noteq> 0" by auto
  then have "(b * q + r) div b = q + r div b" by simp
  then show ?thesis using a by (simp add: div_pos_pos_trivial)
qed

lemma era_years:
  assumes "0 \<le> doe" and "doe \<le> 146096"
  shows "0 \<le> year_of_era doe \<and> year_of_era doe \<le> 399
       \<and> 0 \<le> day_of_year doe (year_of_era doe)
       \<and> day_of_year doe (year_of_era doe) \<le> 365"
proof (cases "doe = 146096")
  case True
  then show ?thesis by (simp add: year_of_era_def day_of_year_def)
next
  case False
  with assms have up: "doe \<le> 146095" by simp
  define C where "C = doe div 36524"
  define r where "r = doe mod 36524"
  define Q where "Q = r div 1461"
  define s where "s = r mod 1461"
  have doe: "doe = 36524 * C + r" by (simp add: C_def r_def)
  have r: "0 \<le> r" "r < 36524" by (simp_all add: r_def)
  have C: "0 \<le> C" "C \<le> 3" using assms(1) up by (simp_all add: C_def)
  have rq: "r = 1461 * Q + s" by (simp add: Q_def s_def)
  have s: "0 \<le> s" "s < 1461" by (simp_all add: s_def)
  have Q: "0 \<le> Q" "Q \<le> 24" using r by (simp_all add: Q_def)
  have last: "Q = 24 \<longrightarrow> s \<le> 1459" using r(2) rq by auto
  define w where "w = 24 * C + Q + s"
  define e where "e = (if 1460 \<le> w then 1 else 0::int)"
  have w: "0 \<le> w" "w < 2920" using C Q s by (simp_all add: w_def)
  have e: "0 \<le> e" "e \<le> 1" by (simp_all add: e_def)
  have q3: "doe div 146096 = 0" using assms(1) up by simp
  have "doe = 1460 * (25 * C + Q + e) + (w - 1460 * e)"
    using doe rq by (simp add: w_def)
  moreover have "0 \<le> w - 1460 * e" "w - 1460 * e < 1460" using w by (auto simp: e_def)
  ultimately have q1: "doe div 1460 = 25 * C + Q + e"
    using div_by_parts[of "w - 1460 * e" 1460 "25 * C + Q + e"] by simp
  have se: "0 \<le> s - e" "s - e \<le> 1459"
    using s C Q last by (auto simp: e_def w_def)
  define Y where "Y = (s - e) div 365"
  have Y: "0 \<le> Y" "Y \<le> 3" using se by (simp_all add: Y_def)
  have Ys: "365 * Y \<le> s - e" "s - e < 365 * Y + 365"
    unfolding Y_def by (simp_all add: zdiv_mono1 div_int_pos_iff) 
  have q2: "doe div 36524 = C" by (simp add: C_def)
  have "doe - (25 * C + Q + e) + C - 0 = 365 * (100 * C + 4 * Q) + (s - e)"
    using doe rq by simp
  then have N: "doe - doe div 1460 + doe div 36524 - doe div 146096
      = 365 * (100 * C + 4 * Q) + (s - e)"
    by (simp only: q1 q2 q3)
  have "(365 * (100 * C + 4 * Q) + (s - e)) div 365 = 100 * C + 4 * Q + (s - e) div 365"
    by simp
  then have yoe: "year_of_era doe = 100 * C + 4 * Q + Y"
    by (simp add: year_of_era_def N Y_def)
  have y4: "(100 * C + 4 * Q + Y) div 4 = 25 * C + Q"
    using div_by_parts[of Y 4 "25 * C + Q"] Y by (simp add: algebra_simps)
  have y100: "(100 * C + 4 * Q + Y) div 100 = C"
    using div_by_parts[of "4 * Q + Y" 100 C] Y Q by (simp add: algebra_simps)
  have "day_of_year doe (year_of_era doe)
      = doe - (365 * (100 * C + 4 * Q + Y) + (25 * C + Q) - C)"
    by (simp only: day_of_year_def yoe y4 y100)
  then have doy: "day_of_year doe (year_of_era doe) = s - 365 * Y"
    using doe rq by simp
  show ?thesis using yoe doy C Q Y Ys e by auto
qed


lemma month_day_range:
  assumes "0 \<le> doy" and "doy \<le> 365"
  shows "0 \<le> (5 * doy + 2) div 153 \<and> (5 * doy + 2) div 153 \<le> 11
       \<and> 1 \<le> civil_month doy \<and> civil_month doy \<le> 12
       \<and> 1 \<le> civil_day doy \<and> civil_day doy \<le> 31"
proof -
  define mp where "mp = (5 * doy + 2) div 153"
  define g where "g = (153 * mp + 2) div 5"
  have mp: "153 * mp \<le> 5 * doy + 2" "5 * doy + 2 < 153 * mp + 153"
    unfolding mp_def by (simp_all add: zdiv_mono1 div_int_pos_iff)
  have g: "5 * g \<le> 153 * mp + 2" "153 * mp + 2 < 5 * g + 5"
    unfolding g_def by (simp_all add: zdiv_mono1 div_int_pos_iff)
  have r: "0 \<le> mp" "mp \<le> 11" using mp assms by simp_all
  have d: "1 \<le> doy - g + 1" "doy - g + 1 \<le> 31" using mp g by simp_all
  have m: "1 \<le> month_of mp" "month_of mp \<le> 12" using r by (simp_all add: month_of_def)
  show ?thesis
    using r d m by (simp add: civil_month_def civil_day_def mp_def[symmetric] g_def[symmetric])
qed

lemma month_of_inj:
  "0 \<le> a \<Longrightarrow> a \<le> 11 \<Longrightarrow> 0 \<le> b \<Longrightarrow> b \<le> 11 \<Longrightarrow> month_of a = month_of b \<Longrightarrow> a = b"
  by (simp add: month_of_def split: if_splits)

text \<open>The year, month and day of a date determine the era and the day of the era.\<close>

lemma calendar_inj:
  assumes a: "0 \<le> doe" "doe \<le> 146096" and b: "0 \<le> doe'" "doe' \<le> 146096"
    and y: "civil_year era (year_of_era doe) (civil_month (day_of_year doe (year_of_era doe)))
          = civil_year era' (year_of_era doe') (civil_month (day_of_year doe' (year_of_era doe')))"
    and m: "civil_month (day_of_year doe (year_of_era doe))
          = civil_month (day_of_year doe' (year_of_era doe'))"
    and d: "civil_day (day_of_year doe (year_of_era doe))
          = civil_day (day_of_year doe' (year_of_era doe'))"
  shows "era = era' \<and> doe = doe'"
proof -
  define yoe where "yoe = year_of_era doe"
  define yoe' where "yoe' = year_of_era doe'"
  define doy where "doy = day_of_year doe yoe"
  define doy' where "doy' = day_of_year doe' yoe'"
  have ra: "0 \<le> yoe" "yoe \<le> 399" "0 \<le> doy" "doy \<le> 365"
    using era_years[OF a] by (simp_all add: yoe_def doy_def)
  have rb: "0 \<le> yoe'" "yoe' \<le> 399" "0 \<le> doy'" "doy' \<le> 365"
    using era_years[OF b] by (simp_all add: yoe'_def doy'_def)
  define mp where "mp = (5 * doy + 2) div 153"
  define mp' where "mp' = (5 * doy' + 2) div 153"
  have mpa: "0 \<le> mp" "mp \<le> 11" using month_day_range[OF ra(3,4)] by (simp_all add: mp_def)
  have mpb: "0 \<le> mp'" "mp' \<le> 11" using month_day_range[OF rb(3,4)] by (simp_all add: mp'_def)
  have "month_of mp = month_of mp'"
    using m by (simp add: civil_month_def mp_def mp'_def doy_def doy'_def yoe_def yoe'_def)
  then have mpe: "mp = mp'" using mpa mpb month_of_inj by blast
  have "doy - (153 * mp + 2) div 5 + 1 = doy' - (153 * mp' + 2) div 5 + 1"
    using d by (simp add: civil_day_def mp_def mp'_def doy_def doy'_def yoe_def yoe'_def)
  then have doye: "doy = doy'" using mpe by simp
  have "yoe + era * 400 = yoe' + era' * 400"
    using y m by (simp add: civil_year_def doy_def doy'_def yoe_def yoe'_def)
  then have sum: "yoe + era * 400 = yoe' + era' * 400" .
  have ee: "era = era'"
  proof (rule ccontr)
    assume "era \<noteq> era'"
    then consider "era + 1 \<le> era'" | "era' + 1 \<le> era" by linarith
    then show False
    proof cases
      case 1
      then have "era * 400 + 400 \<le> era' * 400" by simp
      then show False using sum ra(1,2) rb(1,2) by linarith
    next
      case 2
      then have "era' * 400 + 400 \<le> era * 400" by simp
      then show False using sum ra(1,2) rb(1,2) by linarith
    qed
  qed
  then have ye: "yoe = yoe'" using sum by simp
  have "doe = doy + (365 * yoe + yoe div 4 - yoe div 100)"
    "doe' = doy' + (365 * yoe' + yoe' div 4 - yoe' div 100)"
    by (simp_all add: doy_def doy'_def day_of_year_def)
  then have "doe = doe'" using doye ye by simp
  then show ?thesis using ee by simp
qed


lemma year_text_short: "0 \<le> y \<Longrightarrow> y \<le> 9999 \<Longrightarrow> year_text y = pad4 (nat y)"
  by (simp add: year_text_def)

lemma year_text_long:
  "y < 0 \<or> 9999 < y \<Longrightarrow>
   year_text y = (if y < 0 then CHR ''-'' else CHR ''+'') # pad6 (nat \<bar>y\<bar>)"
  by (auto simp: year_text_def)

lemma year_text_split:
  assumes eq: "year_text y @ r = year_text y' @ r'"
    and y: "\<bar>y\<bar> < 1000000" and y': "\<bar>y'\<bar> < 1000000"
  shows "y = y' \<and> r = r'"
proof -
  have l4: "length (pad4 n) = 4" and l6: "length (pad6 n) = 6" for n
    by (simp_all add: pad4_def pad6_def)
  have h4: "hd (pad4 n @ q) = digit (n div 1000)" for n q by (simp add: pad4_def)
  have sign: "digit n \<noteq> (if x < 0 then CHR ''-'' else CHR ''+'')" for n and x :: int
    using digit_no_sign by simp
  consider (short) "0 \<le> y" "y \<le> 9999" "0 \<le> y'" "y' \<le> 9999"
    | (mixed) "0 \<le> y" "y \<le> 9999" "y' < 0 \<or> 9999 < y'"
    | (mixed') "y < 0 \<or> 9999 < y" "0 \<le> y'" "y' \<le> 9999"
    | (long) "y < 0 \<or> 9999 < y" "y' < 0 \<or> 9999 < y'"
    by linarith
  then show ?thesis
  proof cases
    case short
    then have "pad4 (nat y) @ r = pad4 (nat y') @ r'" using eq by (simp add: year_text_short)
    then have p: "pad4 (nat y) = pad4 (nat y')" and rr: "r = r'" by (simp_all add: l4)
    have "nat y = nat y'" using p by (rule pad4_inj) (use short in auto)
    then show ?thesis using short rr by auto
  next
    case mixed
    have "hd (year_text y @ r) = hd (year_text y' @ r')" using eq by simp
    then have "digit (nat y div 1000) = (if y' < 0 then CHR ''-'' else CHR ''+'')"
      by (simp add: year_text_short[OF mixed(1,2)] year_text_long[OF mixed(3)] h4)
    then show ?thesis using sign by blast
  next
    case mixed'
    have "hd (year_text y' @ r') = hd (year_text y @ r)" using eq by simp
    then have "digit (nat y' div 1000) = (if y < 0 then CHR ''-'' else CHR ''+'')"
      by (simp add: year_text_short[OF mixed'(2,3)] year_text_long[OF mixed'(1)] h4)
    then show ?thesis using sign by blast
  next
    case long
    have e: "((if y < 0 then CHR ''-'' else CHR ''+'') # pad6 (nat \<bar>y\<bar>)) @ r
        = ((if y' < 0 then CHR ''-'' else CHR ''+'') # pad6 (nat \<bar>y'\<bar>)) @ r'"
      using eq by (simp only: year_text_long[OF long(1)] year_text_long[OF long(2)])
    then have sg: "(y < 0) = (y' < 0)" by (auto split: if_splits)
    from e have "pad6 (nat \<bar>y\<bar>) @ r = pad6 (nat \<bar>y'\<bar>) @ r'" by simp
    then have p: "pad6 (nat \<bar>y\<bar>) = pad6 (nat \<bar>y'\<bar>)" and rr: "r = r'" by (simp_all add: l6)
    have "nat \<bar>y\<bar> = nat \<bar>y'\<bar>" using p by (rule pad6_inj) (use y y' in simp_all)
    then show ?thesis using sg rr by auto
  qed
qed

lemma year_bound:
  assumes "valid_time t" and "0 \<le> yoe" and "yoe \<le> 399"
  shows "\<bar>civil_year ((t div 86400000 + 719468) div 146097) yoe m\<bar> < 1000000"
proof -
  have "- 8640000000000000 \<le> t" "t \<le> 8640000000000000"
    using assms(1) by (simp_all add: valid_time_def)
  then have "(- 8640000000000000) div 86400000 \<le> t div 86400000"
    "t div 86400000 \<le> 8640000000000000 div (86400000::int)"
    by (simp_all add: zdiv_mono1)
  then have "- 100000000 \<le> t div 86400000" "t div 86400000 \<le> 100000000"
    by simp_all
  then have "- 99280532 \<le> t div 86400000 + 719468" "t div 86400000 + 719468 \<le> 100719468"
    by simp_all
  then have "- 680 \<le> (t div 86400000 + 719468) div 146097"
    "(t div 86400000 + 719468) div 146097 \<le> 689"
    by simp_all
  then show ?thesis using assms(2,3) by (auto simp: civil_year_def abs_less_iff)
qed

text \<open>Two valid time values with the same ISO text are the same.\<close>

lemma toISOString_inj:
  assumes "toISOString t = toISOString t'" and "valid_time t" and "valid_time t'"
  shows "t = t'"
proof -
  define z where "z = t div 86400000 + 719468"
  define z' where "z' = t' div 86400000 + 719468"
  define era where "era = z div 146097"
  define era' where "era' = z' div 146097"
  define doe where "doe = z mod 146097"
  define doe' where "doe' = z' mod 146097"
  define yoe where "yoe = year_of_era doe"
  define yoe' where "yoe' = year_of_era doe'"
  define doy where "doy = day_of_year doe yoe"
  define doy' where "doy' = day_of_year doe' yoe'"
  define ms where "ms = nat (t mod 86400000)"
  define ms' where "ms' = nat (t' mod 86400000)"
  have a: "0 \<le> doe" "doe \<le> 146096" by (simp_all add: doe_def)
  have b: "0 \<le> doe'" "doe' \<le> 146096" by (simp_all add: doe'_def)
  have ra: "0 \<le> yoe" "yoe \<le> 399" "0 \<le> doy" "doy \<le> 365"
    using era_years[OF a] by (simp_all add: yoe_def doy_def)
  have rb: "0 \<le> yoe'" "yoe' \<le> 399" "0 \<le> doy'" "doy' \<le> 365"
    using era_years[OF b] by (simp_all add: yoe'_def doy'_def)
  have ma: "1 \<le> civil_month doy" "civil_month doy \<le> 12" "1 \<le> civil_day doy" "civil_day doy \<le> 31"
    using month_day_range[OF ra(3,4)] by simp_all
  have mb: "1 \<le> civil_month doy'" "civil_month doy' \<le> 12" "1 \<le> civil_day doy'" "civil_day doy' \<le> 31"
    using month_day_range[OF rb(3,4)] by simp_all
  have ya: "\<bar>civil_year era yoe (civil_month doy)\<bar> < 1000000"
    using year_bound[OF assms(2) ra(1,2)] by (simp add: era_def z_def)
  have yb: "\<bar>civil_year era' yoe' (civil_month doy')\<bar> < 1000000"
    using year_bound[OF assms(3) rb(1,2)] by (simp add: era'_def z'_def)
  have l2: "length (pad2 n) = 2" for n by (simp add: pad2_def)
  have tx: "toISOString t =
      year_text (civil_year era yoe (civil_month doy))
      @ (''-'' @ pad2 (nat (civil_month doy)) @ ''-'' @ pad2 (nat (civil_day doy))
         @ ''T'' @ time_text ms @ ''Z'')"
    by (simp add: toISOString_def era_text_def date_text_def era_def doe_def z_def yoe_def doy_def ms_def)
  have tx': "toISOString t' =
      year_text (civil_year era' yoe' (civil_month doy'))
      @ (''-'' @ pad2 (nat (civil_month doy')) @ ''-'' @ pad2 (nat (civil_day doy'))
         @ ''T'' @ time_text ms' @ ''Z'')"
    by (simp add: toISOString_def era_text_def date_text_def era'_def doe'_def z'_def yoe'_def doy'_def ms'_def)
  have sp: "civil_year era yoe (civil_month doy) = civil_year era' yoe' (civil_month doy')
      \<and> ''-'' @ pad2 (nat (civil_month doy)) @ ''-'' @ pad2 (nat (civil_day doy))
           @ ''T'' @ time_text ms @ ''Z''
        = ''-'' @ pad2 (nat (civil_month doy')) @ ''-'' @ pad2 (nat (civil_day doy'))
           @ ''T'' @ time_text ms' @ ''Z''"
    using assms(1) ya yb unfolding tx tx' by (rule year_text_split)
  then have pm: "pad2 (nat (civil_month doy)) = pad2 (nat (civil_month doy'))"
    and pd: "pad2 (nat (civil_day doy)) = pad2 (nat (civil_day doy'))"
    and pt: "time_text ms = time_text ms'"
    by (simp_all add: l2)
  have "nat (civil_month doy) = nat (civil_month doy')"
    using pm by (rule pad2_inj) (use ma mb in simp_all)
  then have me: "civil_month doy = civil_month doy'" using ma mb by simp
  have "nat (civil_day doy) = nat (civil_day doy')"
    using pd by (rule pad2_inj) (use ma mb in simp_all)
  then have de: "civil_day doy = civil_day doy'" using ma mb by simp
  have "era = era' \<and> doe = doe'"
    using a b sp me de unfolding doy_def doy'_def yoe_def yoe'_def by (intro calendar_inj) simp_all
  then have "z = z'"
    unfolding era_def era'_def doe_def doe'_def by (metis div_mult_mod_eq)
  then have dv: "t div 86400000 = t' div 86400000" by (simp add: z_def z'_def)
  have "ms = ms'" using pt by (rule time_text_inj) (simp_all add: ms_def ms'_def nat_less_iff)
  then have "t mod 86400000 = t' mod 86400000" by (simp add: ms_def ms'_def)
  then show ?thesis using dv by (metis div_mult_mod_eq)
qed

subsection \<open>The timestamps of stored records\<close>

lemma stamped_by_later: "stamped_by t n \<Longrightarrow> t \<le> t' \<Longrightarrow> stamped_by t' n"
  unfolding stamped_by_def by (meson order_trans)

lemma stamped_by_ordered: "stamped_by t n \<Longrightarrow> stamps_ordered n"
  unfolding stamped_by_def stamps_ordered_def by blast

lemma kept_later: "kept s t \<Longrightarrow> t \<le> t' \<Longrightarrow> kept s t'"
  unfolding kept_def by (auto simp: list_all_iff intro: stamped_by_later)

lemma kept_written:
  "collection ns \<Longrightarrow> list_all (stamped_by t) ns \<Longrightarrow> kept (written ns s) t"
  unfolding kept_def by (simp add: written_def)

lemma stamped_new_note: "valid_time now \<Longrightarrow> stamped_by now (to_json (new_note d uuid now))"
  unfolding stamped_by_def using stored_note_stamps[of d uuid now] by auto

lemma create_fault:
  "holds s ns \<Longrightarrow> write_fault s = Some c \<Longrightarrow> create d uuid now s = (Inl (FsError c), s)"
  by (simp add: create_def readNotes_holds writeNotes_cases)

lemma kept_create:
  assumes "kept s t" and "t \<le> now" and "valid_time now"
  shows "kept (snd (create d uuid now s)) now"
proof -
  obtain ns where ns: "data_file s = Some (Json (JArr ns))" "collection ns"
    "list_all (stamped_by t) ns"
    using assms(1) by (auto simp: kept_def)
  have same: "kept s now" using assms(1,2) by (rule kept_later)
  show ?thesis
  proof (cases "read_fault s")
    case (Some c)
    then have "create d uuid now s = (Inl (FsError c), s)"
      by (simp add: create_def readNotes_cases)
    then show ?thesis using same by simp
  next
    case None
    then have h: "holds s ns" using ns by (simp add: holds_def)
    show ?thesis
    proof (cases "write_fault s")
      case (Some c)
      then show ?thesis using create_fault[OF h Some] same by simp
    next
      case w: None
      have c: "collection (ns @ [to_json (new_note d uuid now)])"
        using create_result_holds[OF h w, of d uuid now] by (simp add: holds_def)
      have "list_all (stamped_by now) ns"
        using ns(3) assms(2) by (auto simp: list_all_iff intro: stamped_by_later)
      then have "list_all (stamped_by now) (ns @ [to_json (new_note d uuid now)])"
        using stamped_new_note[OF assms(3)] by simp
      then show ?thesis
        using create_holds[OF h w, of d uuid now] c by (simp add: kept_written)
    qed
  qed
qed

lemma stamped_merged:
  assumes "stamped_by t (JObj ps)" and "t \<le> now" and "is_json_props ps"
    and "''createdAt'' \<notin> keys d" and "valid_time now"
  shows "stamped_by now (to_json (merged (JObj ps) d now))"
proof -
  obtain c u where cu: "c \<le> u" "u \<le> t" "valid_time c"
    "get_prop (JObj ps) ''createdAt'' = Inr (JStr (toISOString c))"
    using assms(1) by (auto simp: stamped_by_def)
  have "get_prop (to_json (merged (JObj ps) d now)) ''createdAt'' = Inr (lookup ps ''createdAt'')"
    using assms(3,4) by (simp add: stored_untouched)
  then have a: "get_prop (to_json (merged (JObj ps) d now)) ''createdAt'' = Inr (JStr (toISOString c))"
    using cu(4) by simp
  have b: "get_prop (to_json (merged (JObj ps) d now)) ''updatedAt'' = Inr (JStr (toISOString now))"
    by (rule stored_updatedAt)
  have "c \<le> now" using cu(1,2) assms(2) by simp
  then show ?thesis unfolding stamped_by_def using a b cu(3) assms(5) by blast
qed

lemma kept_update:
  assumes "kept s t" and "t \<le> now" and "keeps_createdAt d" and "valid_time now"
  shows "kept (snd (update i d now s)) now"
proof -
  obtain ns where ns: "data_file s = Some (Json (JArr ns))" "collection ns"
    "list_all (stamped_by t) ns"
    using assms(1) by (auto simp: kept_def)
  have same: "kept s now" using assms(1,2) by (rule kept_later)
  have later: "list_all (stamped_by now) ns"
    using ns(3) assms(2) by (auto simp: list_all_iff intro: stamped_by_later)
  have nocr: "''createdAt'' \<notin> keys d" using assms(3) by (simp add: keeps_createdAt_def)
  show ?thesis
  proof (cases "read_fault s")
    case (Some c)
    then have "update i d now s = (Inl (FsError c), s)"
      by (simp add: update_def readNotes_cases)
    then show ?thesis using same by simp
  next
    case None
    then have h: "holds s ns" using ns by (simp add: holds_def)
    show ?thesis
    proof (cases "list_ex (has_id i) ns")
      case False
      then show ?thesis using update_absent[OF h False, of d now] same by simp
    next
      case True
      then obtain k where k: "k < length ns" "has_id i (ns ! k)" "\<forall>j<k. \<not> has_id i (ns ! j)"
        using first_position by blast
      obtain ps where ps: "ns ! k = JObj ps" "is_json_props ps"
        using record_of_collection[OF h k(1)] by blast
      let ?m = "to_json (merged (ns ! k) d now)"
      show ?thesis
      proof (cases "write_fault s")
        case (Some c)
        then show ?thesis using update_present[OF h k, of d now] same by simp
      next
        case w: None
        have "stamped_by t (JObj ps)" using ns(3) k(1) ps(1) by (auto simp: list_all_length)
        then have sm: "stamped_by now ?m"
          using assms(2,4) ps nocr by (simp add: stamped_merged)
        have "is_record ?m" by (simp add: merged_def)
        moreover have "is_json ?m" by (simp add: is_json_to_json merged_not_undefined)
        ultimately have c: "collection (ns[k := ?m])"
          using ns(2) by (auto simp: collection_def list_all_iff is_json_elems_iff
              dest: set_update_subset_insert[THEN subsetD])
        have l: "list_all (stamped_by now) (ns[k := ?m])"
          using later sm by (auto simp: list_all_iff dest: set_update_subset_insert[THEN subsetD])
        show ?thesis
          using update_present[OF h k, of d now] w c l by (simp add: kept_written)
      qed
    qed
  qed
qed

lemma kept_remove:
  assumes "kept s t" and "t \<le> now"
  shows "kept (snd (remove i s)) now"
proof -
  obtain ns where ns: "data_file s = Some (Json (JArr ns))" "collection ns"
    "list_all (stamped_by t) ns"
    using assms(1) by (auto simp: kept_def)
  have same: "kept s now" using assms(1,2) by (rule kept_later)
  have later: "list_all (stamped_by now) ns"
    using ns(3) assms(2) by (auto simp: list_all_iff intro: stamped_by_later)
  show ?thesis
  proof (cases "read_fault s")
    case (Some c)
    then have "remove i s = (Inl (FsError c), s)"
      by (simp add: remove_def readNotes_cases)
    then show ?thesis using same by simp
  next
    case None
    then have h: "holds s ns" using ns by (simp add: holds_def)
    show ?thesis
    proof (cases "list_ex (has_id i) ns")
      case False
      then show ?thesis using remove_absent[OF h False] same by simp
    next
      case True
      then obtain k where k: "k < length ns" "has_id i (ns ! k)" "\<forall>j<k. \<not> has_id i (ns ! j)"
        using first_position by blast
      show ?thesis
      proof (cases "write_fault s")
        case (Some c)
        then show ?thesis using remove_present[OF h k] same by simp
      next
        case w: None
        have sub: "set (splice1 k ns) \<subseteq> set ns"
          by (auto simp: splice1_def dest: in_set_takeD in_set_dropD)
        have c: "collection (splice1 k ns)"
          using ns(2) sub by (auto simp: collection_def list_all_iff is_json_elems_iff)
        have l: "list_all (stamped_by now) (splice1 k ns)"
          using later sub by (auto simp: list_all_iff)
        show ?thesis
          using remove_present[OF h k] w c l by (simp add: kept_written)
      qed
    qed
  qed
qed

lemma findOne_store: "snd (findOne i s) = s"
  by (simp add: findOne_def split: sum.splits)

lemma kept_faults: "kept s t \<Longrightarrow> kept (s\<lparr>read_fault := r, write_fault := w\<rparr>) t"
  by (simp add: kept_def)

lemma kept_empty: "data_file s = Some (Json (JArr [])) \<Longrightarrow> kept s t"
  by (simp add: kept_def collection_def)

lemma reachable_kept: "reachable keeps_createdAt s t \<Longrightarrow> kept s t"
proof (induction rule: reachable.induct)
  case (r_empty s t)
  then show ?case by (rule kept_empty)
next
  case (r_create s t now d uuid)
  then show ?case by (simp add: kept_create)
next
  case (r_findAll s t now)
  then show ?case by (simp add: findAll_def kept_later)
next
  case (r_findOne s t now i)
  then show ?case by (simp add: findOne_store kept_later)
next
  case (r_update s t now d i)
  then show ?case by (simp add: kept_update)
next
  case (r_remove s t now i)
  then show ?case by (simp add: kept_remove)
next
  case (r_faults s t r w)
  then show ?case by (simp add: kept_faults)
qed

text \<open>A run with patches of the \<^verbatim>\<open>UpdateNoteDto\<close> shape is a run with patches that keep \<^verbatim>\<open>createdAt\<close>.\<close>

lemma shaped_keeps_createdAt: "dto_shaped d \<Longrightarrow> keeps_createdAt d"
  by (auto simp: dto_shaped_def keeps_createdAt_def)

lemma reachable_shaped: "reachable dto_shaped s t \<Longrightarrow> reachable keeps_createdAt s t"
  by (induction rule: reachable.induct) (auto intro: reachable.intros shaped_keeps_createdAt)

text \<open>For the texts of two valid time values, ordered timestamps are ordered time values.\<close>

lemma stamps_ordered_iff:
  assumes "valid_time c" and "valid_time u"
    and "get_prop n ''createdAt'' = Inr (JStr (toISOString c))"
    and "get_prop n ''updatedAt'' = Inr (JStr (toISOString u))"
  shows "stamps_ordered n = (c \<le> u)"
proof
  assume "stamps_ordered n"
  then obtain c' u' where o: "valid_time c'" "valid_time u'" "c' \<le> u'"
    "toISOString c' = toISOString c" "toISOString u' = toISOString u"
    using assms(3,4) by (auto simp: stamps_ordered_def)
  have "c' = c" using o(4,1) assms(1) by (rule toISOString_inj)
  moreover have "u' = u" using o(5,2) assms(2) by (rule toISOString_inj)
  ultimately show "c \<le> u" using o(3) by simp
next
  assume "c \<le> u"
  then show "stamps_ordered n" using assms by (auto simp: stamps_ordered_def)
qed


lemma iso_0: "toISOString 0 = ''1970-01-01T00:00:00.000Z''"
  by (simp add: iso_defs)

lemma iso_9: "toISOString 9 = ''1970-01-01T00:00:00.009Z''"
  by (simp add: iso_defs)

lemma create_t1_on_empty: "snd (create t1_dto ''u1'' 0 empty_store) = one_note"
proof -
  have h: "holds empty_store []"
    by (simp add: holds_def empty_store_def collection_def)
  have w: "write_fault empty_store = None" by (simp add: empty_store_def)
  have n: "new_note t1_dto ''u1'' 0 =
      JObj [(''id'', JStr ''u1''), (''title'', JStr ''T1''), (''content'', JStr ''C1''),
            (''tags'', JArr [JStr ''a'']), (''createdAt'', JDate 0), (''updatedAt'', JDate 0)]"
    by (simp add: new_note_def t1_dto_def lookup_def)
  have "written [to_json (new_note t1_dto ''u1'' 0)] empty_store = one_note"
    by (simp add: n iso_0 written_def empty_store_def one_note_def t1_stored_def)
  then show ?thesis using create_holds[OF h w, of t1_dto "''u1''" 0] by simp
qed

lemma retitle_t1:
  "snd (update ''u1'' [(''title'', JStr ''Z'')] 7 one_note) =
     written [JObj [(''id'', JStr ''u1''), (''title'', JStr ''Z''), (''content'', JStr ''C1''),
                   (''tags'', JArr [JStr ''a'']),
                   (''createdAt'', JStr ''1970-01-01T00:00:00.000Z''),
                   (''updatedAt'', JStr ''1970-01-01T00:00:00.007Z'')]] one_note"
proof -
  have w: "write_fault one_note = None" by (simp add: one_note_def)
  have m: "merged t1_stored [(''title'', JStr ''Z'')] 7 =
      JObj [(''id'', JStr ''u1''), (''title'', JStr ''Z''), (''content'', JStr ''C1''),
                   (''tags'', JArr [JStr ''a'']),
                   (''createdAt'', JStr ''1970-01-01T00:00:00.000Z''),
                   (''updatedAt'', JDate 7)]"
    by (simp add: merged_def t1_stored_def)
  show ?thesis
    using update_present[OF holds_one_note, of 0 "''u1''" "[(''title'', JStr ''Z'')]" 7]
      t1_stored_id w
    by (simp add: m iso_7)
qed

lemma postdate_t1:
  "snd (update ''u1'' [(''createdAt'', JStr ''1970-01-01T00:00:00.009Z'')] 7 one_note) =
     written [JObj [(''id'', JStr ''u1''), (''title'', JStr ''T1''), (''content'', JStr ''C1''),
                   (''tags'', JArr [JStr ''a'']),
                   (''createdAt'', JStr ''1970-01-01T00:00:00.009Z''),
                   (''updatedAt'', JStr ''1970-01-01T00:00:00.007Z'')]] one_note"
proof -
  have w: "write_fault one_note = None" by (simp add: one_note_def)
  have m: "merged t1_stored [(''createdAt'', JStr ''1970-01-01T00:00:00.009Z'')] 7 =
      JObj [(''id'', JStr ''u1''), (''title'', JStr ''T1''), (''content'', JStr ''C1''),
                   (''tags'', JArr [JStr ''a'']),
                   (''createdAt'', JStr ''1970-01-01T00:00:00.009Z''),
                   (''updatedAt'', JDate 7)]"
    by (simp add: merged_def t1_stored_def)
  show ?thesis
    using update_present[OF holds_one_note, of 0 "''u1''"
        "[(''createdAt'', JStr ''1970-01-01T00:00:00.009Z'')]" 7]
      t1_stored_id w
    by (simp add: m iso_7)
qed

lemma run_to_one_note: "reachable patch (snd (create t1_dto ''u1'' 0 empty_store)) 0"
proof -
  have "data_file empty_store = Some (Json (JArr []))" by (simp add: empty_store_def)
  then have "reachable patch empty_store 0" by (rule r_empty)
  moreover have "(0::int) \<le> 0" by simp
  moreover have "valid_time 0" by (simp add: valid_time_def)
  ultimately show ?thesis by (rule r_create)
qed

text \<open>
  Claim C9, as stated, fails: \<open>update\<close> spreads the whole patch over the record,
  so in a run that creates a note at time 0 and then updates it at time 7 with a
  patch that carries a \<^verbatim>\<open>createdAt\<close>, the text of time 9, the stored record has an
  \<^verbatim>\<open>updatedAt\<close> earlier than its \<^verbatim>\<open>createdAt\<close>.
\<close>

theorem patched_createdAt_counterexample:
  "reachable any_patch
     (snd (update ''u1'' [(''createdAt'', JStr ''1970-01-01T00:00:00.009Z'')] 7
            (snd (create t1_dto ''u1'' 0 empty_store)))) 7
   \<and> data_file (snd (update ''u1'' [(''createdAt'', JStr ''1970-01-01T00:00:00.009Z'')] 7
                      (snd (create t1_dto ''u1'' 0 empty_store)))) =
       Some (Json (JArr
         [JObj [(''id'', JStr ''u1''), (''title'', JStr ''T1''), (''content'', JStr ''C1''),
                (''tags'', JArr [JStr ''a'']),
                (''createdAt'', JStr ''1970-01-01T00:00:00.009Z''),
                (''updatedAt'', JStr ''1970-01-01T00:00:00.007Z'')]]))
   \<and> \<not> stamps_ordered
         (JObj [(''id'', JStr ''u1''), (''title'', JStr ''T1''), (''content'', JStr ''C1''),
                (''tags'', JArr [JStr ''a'']),
                (''createdAt'', JStr ''1970-01-01T00:00:00.009Z''),
                (''updatedAt'', JStr ''1970-01-01T00:00:00.007Z'')])"
proof -
  let ?n = "JObj [(''id'', JStr ''u1''), (''title'', JStr ''T1''), (''content'', JStr ''C1''),
                (''tags'', JArr [JStr ''a'']),
                (''createdAt'', JStr ''1970-01-01T00:00:00.009Z''),
                (''updatedAt'', JStr ''1970-01-01T00:00:00.007Z'')]"
  have le: "(0::int) \<le> 7" by simp
  have v7: "valid_time 7" and v9: "valid_time 9" by (simp_all add: valid_time_def)
  have any: "any_patch [(''createdAt'', JStr ''1970-01-01T00:00:00.009Z'')]"
    by (simp add: any_patch_def)
  have r: "reachable any_patch
     (snd (update ''u1'' [(''createdAt'', JStr ''1970-01-01T00:00:00.009Z'')] 7
            (snd (create t1_dto ''u1'' 0 empty_store)))) 7"
    using run_to_one_note le v7 any by (rule r_update)
  have f: "data_file (snd (update ''u1'' [(''createdAt'', JStr ''1970-01-01T00:00:00.009Z'')] 7
                      (snd (create t1_dto ''u1'' 0 empty_store)))) = Some (Json (JArr [?n]))"
    by (simp add: create_t1_on_empty postdate_t1 written_def)
  have "get_prop ?n ''createdAt'' = Inr (JStr (toISOString 9))"
    "get_prop ?n ''updatedAt'' = Inr (JStr (toISOString 7))"
    by (simp_all add: lookup_def iso_9 iso_7)
  then have "stamps_ordered ?n = ((9::int) \<le> 7)"
    using v9 v7 by (intro stamps_ordered_iff)
  then have n: "\<not> stamps_ordered ?n" by simp
  show ?thesis using r f n by blast
qed

text \<open>
  Claim C9, amended. In every store a run of the service reaches from the empty
  collection, with a clock of valid time values that never goes back and update
  patches that carry no
  \<^verbatim>\<open>createdAt\<close> (as no patch of the \<^verbatim>\<open>UpdateNoteDto\<close> shape does), the data file
  holds an array in which every record has ordered timestamps: \<^verbatim>\<open>createdAt\<close> and
  \<^verbatim>\<open>updatedAt\<close> are the ISO texts of two instants, and the instant of
  \<^verbatim>\<open>updatedAt\<close> is not before that of \<^verbatim>\<open>createdAt\<close>.
\<close>

theorem stored_stamps_ordered:
  assumes "reachable keeps_createdAt s t"
  shows "\<exists>ns. data_file s = Some (Json (JArr ns)) \<and> list_all stamps_ordered ns"
proof -
  from assms have "kept s t" by (rule reachable_kept)
  then obtain ns where "data_file s = Some (Json (JArr ns))" "list_all (stamped_by t) ns"
    by (auto simp: kept_def)
  then have "data_file s = Some (Json (JArr ns)) \<and> list_all stamps_ordered ns"
    by (auto simp: list_all_iff intro: stamped_by_ordered)
  then show ?thesis by blast
qed

theorem stored_stamps_ordered_witness:
  "reachable keeps_createdAt
     (snd (update ''u1'' [(''title'', JStr ''Z'')] 7
            (snd (create t1_dto ''u1'' 0 empty_store)))) 7
   \<and> list_all stamps_ordered
       [JObj [(''id'', JStr ''u1''), (''title'', JStr ''Z''), (''content'', JStr ''C1''),
              (''tags'', JArr [JStr ''a'']),
              (''createdAt'', JStr ''1970-01-01T00:00:00.000Z''),
              (''updatedAt'', JStr ''1970-01-01T00:00:00.007Z'')]]"
proof -
  have le: "(0::int) \<le> 7" by simp
  have v7: "valid_time 7" by (simp add: valid_time_def)
  have d: "keeps_createdAt [(''title'', JStr ''Z'')]" by (simp add: keeps_createdAt_def keys_def)
  have r: "reachable keeps_createdAt
     (snd (update ''u1'' [(''title'', JStr ''Z'')] 7
            (snd (create t1_dto ''u1'' 0 empty_store)))) 7"
    using run_to_one_note le v7 d by (rule r_update)
  have "snd (update ''u1'' [(''title'', JStr ''Z'')] 7 (snd (create t1_dto ''u1'' 0 empty_store))) =
     written [JObj [(''id'', JStr ''u1''), (''title'', JStr ''Z''), (''content'', JStr ''C1''),
                   (''tags'', JArr [JStr ''a'']),
                   (''createdAt'', JStr ''1970-01-01T00:00:00.000Z''),
                   (''updatedAt'', JStr ''1970-01-01T00:00:00.007Z'')]] one_note"
    by (simp add: create_t1_on_empty retitle_t1)
  then have "list_all stamps_ordered
       [JObj [(''id'', JStr ''u1''), (''title'', JStr ''Z''), (''content'', JStr ''C1''),
              (''tags'', JArr [JStr ''a'']),
              (''createdAt'', JStr ''1970-01-01T00:00:00.000Z''),
              (''updatedAt'', JStr ''1970-01-01T00:00:00.007Z'')]]"
    using stored_stamps_ordered[OF r] by (simp add: written_def)
  then show ?thesis using r by blast
qed

end
